theory Spec2Isabelle
  imports
    Complex_Main
    "HOL-Library.Word"
    "HOL-Library.Signed_Division"
    "HOL-Library.Char_ord"
    "HOL-Library.List_Lexorder"
    "HOL-Library.Multiset"
begin

unbundle bit_operations_syntax

section \<open>The ACES/OpenEXR header reader (aces.c) as HOL functions\<close>

text \<open>
  The reader is single threaded and works on one file structure that it mutates in place.
  Here the structure is a record that every function takes and returns. A byte is a
  \<^typ>\<open>char\<close>, the stream behind \<open>readfn\<close> is the list of bytes not yet read, and
  the messages handed to the error callback are collected, in order, in the field
  \<open>errors\<close>. Integers of the C source keep their width: \<open>int32_t\<close> and \<open>uint32_t\<close> are
  \<^typ>\<open>32 word\<close>, \<open>uint8_t\<close> is \<^typ>\<open>8 word\<close>; a \<open>float\<close> is only ever copied, so it
  is kept as its four bytes in a \<^typ>\<open>32 word\<close>.
\<close>

subsection \<open>Data structures (aces.h and the private structures of aces.c)\<close>

type_synonym int32 = "32 word"
type_synonym uint32 = "32 word"
type_synonym uint8 = "8 word"

record aces_attr_box2i =
  x_min :: int32
  y_min :: int32
  x_max :: int32
  y_max :: int32

record aces_attr_v2f =
  v2f_x :: "32 word"
  v2f_y :: "32 word"

record aces_attr_tiledesc =
  x_size :: uint32
  y_size :: uint32
  level_type :: "32 word"
  round_mode :: "32 word"

record aces_attr_preview =
  width :: uint32
  height :: uint32
  rgba :: "string option"

record aces_attr_string =
  length_s :: int32
  str :: "string option"

record aces_attr_userdata =
  size_u :: nat
  data_u :: "string option"

record aces_attr_chlist_entry =
  name :: string
  pixel_type :: "32 word"
  p_linear :: uint8
  reserved :: string
  x_sampling :: int32
  y_sampling :: int32

record aces_attr_chlist =
  num_channels :: int
  entries :: "aces_attr_chlist_entry list option"

datatype ACES_STORAGE_TYPE = ACES_STORAGE_SCANLINE | ACES_STORAGE_TILED

datatype ACES_ATTRIBUTE_TYPE =
    ACES_ATTR_UNKNOWN
  | ACES_ATTR_BOX2I
  | ACES_ATTR_BOX2F
  | ACES_ATTR_CHLIST
  | ACES_ATTR_CHROMATICITIES
  | ACES_ATTR_COMPRESSION
  | ACES_ATTR_DOUBLE
  | ACES_ATTR_ENVMAP
  | ACES_ATTR_FLOAT
  | ACES_ATTR_INT
  | ACES_ATTR_KEYCODE
  | ACES_ATTR_LINEORDER
  | ACES_ATTR_M33F
  | ACES_ATTR_M44F
  | ACES_ATTR_PREVIEW
  | ACES_ATTR_RATIONAL
  | ACES_ATTR_STRING
  | ACES_ATTR_STRING_VECTOR
  | ACES_ATTR_TILEDESC
  | ACES_ATTR_TIMECODE
  | ACES_ATTR_V2I
  | ACES_ATTR_V2F
  | ACES_ATTR_V3I
  | ACES_ATTR_V3F
  | ACES_ATTR_USER

text \<open>
  The anonymous union of \<open>aces_attribute\<close>. Every fixed-size member is filled by one
  verbatim read of its bytes, so one constructor holds those bytes; the four members
  that own a heap buffer have a constructor each. \<open>U_zero\<close> is the union after the
  \<open>memset\<close> at the start of \<open>read_attribute\<close>.
\<close>

datatype attr_union =
    U_zero
  | U_bytes string
  | U_chlist aces_attr_chlist
  | U_preview aces_attr_preview
  | U_string aces_attr_string
  | U_userdata aces_attr_userdata

record aces_attribute =
  type_name :: "string option"
  type :: ACES_ATTRIBUTE_TYPE
  payload :: attr_union

text \<open>
  One constructor for each \<open>print_error\<close> call of the functions modelled below (and
  \<open>PlainMessage\<close> for the fixed strings passed to the error function directly). The
  arguments are the arguments of the format string, the file name first.
\<close>

datatype err_msg =
    NameEOF string string string
  | NameTooLong string string string
  | SizeMismatch string nat string int32
  | TruncatedRead string string
  | StringAllocFailed string int32
  | StringTruncated string int32
  | UserdataAllocFailed string int32
  | UserdataTruncated string int32
  | PreviewTooSmall string
  | PreviewDimsTruncated string
  | PreviewAllocFailed string uint32 uint32
  | PreviewDataTruncated string nat
  | ChlistTmpAllocFailed string
  | ChlistAllocFailed string int
  | AttrSizeTruncated string string
  | UnknownAttributeType string string string
  | MissingRequiredAttribute string string
  | MagicVersionTruncated string
  | BadMagic string int32
  | UnsupportedVersion string int32
  | UnknownCompression string uint8
  | OpenFailed string
  | PlainMessage string

text \<open>
  \<open>ACES_PRIVATE_FILE\<close> is the first member of \<open>__ACES_INTERNAL_FILE_DATA\<close>, and the
  code casts between the two; the second record extends the first. \<open>user_file\<close> is the
  stream the read callback works on: the bytes not yet consumed. \<open>malloc_limit\<close> is the
  largest request \<open>malloc\<close> grants (the memory there is); \<open>errors\<close> is what the error
  callback has received.
\<close>

record ACES_PRIVATE_FILE =
  storage_mode :: ACES_STORAGE_TYPE
  channels :: aces_attr_chlist
  compression :: uint8
  data_window :: aces_attr_box2i
  display_window :: aces_attr_box2i
  line_order :: uint8
  pixel_aspect_ratio :: "32 word"
  screen_window_center :: aces_attr_v2f
  screen_window_width :: "32 word"
  tile_info :: aces_attr_tiledesc
  user_attributes :: "(string \<times> aces_attribute) list"

record ACES_INTERNAL_FILE_DATA = ACES_PRIVATE_FILE +
  given_filename :: string
  user_file :: string
  fd :: int
  cur_file_pos :: nat
  errors :: "err_msg list"
  malloc_limit :: nat

subsection \<open>Allocation, the error callback, the read callback\<close>

definition zero_box2i :: aces_attr_box2i where
  "zero_box2i = \<lparr>x_min = 0, y_min = 0, x_max = 0, y_max = 0\<rparr>"

text \<open>\<open>alloc_file_data_struct\<close>: a structure of zero bytes. The stream and the memory
  limit are the world the structure lives in, so they are arguments here.\<close>

definition alloc_file_data_struct :: "string \<Rightarrow> nat \<Rightarrow> ACES_INTERNAL_FILE_DATA" where
  "alloc_file_data_struct stream mem =
     \<lparr>storage_mode = ACES_STORAGE_SCANLINE,
      channels = \<lparr>num_channels = 0, entries = None\<rparr>,
      compression = 0,
      data_window = zero_box2i,
      display_window = zero_box2i,
      line_order = 0,
      pixel_aspect_ratio = 0,
      screen_window_center = \<lparr>v2f_x = 0, v2f_y = 0\<rparr>,
      screen_window_width = 0,
      tile_info = \<lparr>x_size = 0, y_size = 0, level_type = 0, round_mode = 0\<rparr>,
      user_attributes = [],
      given_filename = [],
      user_file = stream,
      fd = 0,
      cur_file_pos = 0,
      errors = [],
      malloc_limit = mem\<rparr>"

definition print_error :: "ACES_INTERNAL_FILE_DATA \<Rightarrow> err_msg \<Rightarrow> ACES_INTERNAL_FILE_DATA" where
  "print_error f m = f\<lparr>errors := errors f @ [m]\<rparr>"

definition malloc_ok :: "ACES_INTERNAL_FILE_DATA \<Rightarrow> nat \<Rightarrow> bool" where
  "malloc_ok f n \<longleftrightarrow> n \<le> malloc_limit f"

text \<open>\<open>f->readfn( f->user_file, buf, size )\<close> on a stream of bytes: it hands over the
  next \<open>size\<close> bytes, or all that is left, and returns how many those were.\<close>

definition readfn :: "ACES_INTERNAL_FILE_DATA \<Rightarrow> nat \<Rightarrow> int \<times> string \<times> ACES_INTERNAL_FILE_DATA" where
  "readfn f n =
     (int (length (take n (user_file f))),
      take n (user_file f),
      f\<lparr>user_file := drop n (user_file f)\<rparr>)"

text \<open>Conversions of C: an \<open>int32_t\<close> converted to \<open>size_t\<close> (64 bits), and the little
  endian value of the bytes a read stored into an integer.\<close>

definition size_t_of_int32 :: "int32 \<Rightarrow> nat" where
  "size_t_of_int32 g = nat (sint g mod 2 ^ 64)"

definition le_nat :: "string \<Rightarrow> nat" where
  "le_nat bs = foldr (\<lambda>b acc. of_char b + 256 * acc) bs 0"

definition le32 :: "string \<Rightarrow> 32 word" where
  "le32 bs = word_of_nat (le_nat (take 4 bs))"

definition le8 :: "string \<Rightarrow> 8 word" where
  "le8 bs = word_of_nat (le_nat (take 1 bs))"

definition bytes_le :: "nat \<Rightarrow> nat \<Rightarrow> string" where
  "bytes_le k v = map (\<lambda>i. char_of (v div 256 ^ i)) [0..<k]"

text \<open>\<open>strcmp\<close>: the difference of the first pair of bytes that differ, read as
  \<open>unsigned char\<close>; the terminating NUL of the shorter string takes part as 0.\<close>

fun strcmp :: "string \<Rightarrow> string \<Rightarrow> int" where
  "strcmp [] [] = 0"
| "strcmp [] (y # ys) = - int (of_char y)"
| "strcmp (x # xs) [] = int (of_char x)"
| "strcmp (x # xs) (y # ys) =
     (if x = y then strcmp xs ys else int (of_char x) - int (of_char y))"

subsection \<open>Block geometry\<close>

text \<open>Arithmetic of \<open>int\<close> in C on 32 bits: the sum and the difference wrap (two's
  complement), the quotient truncates towards zero.\<close>

definition c_div :: "int32 \<Rightarrow> int32 \<Rightarrow> int32" where
  "c_div a b = word_of_int (sint a sdiv sint b)"

definition lines_per_block :: "ACES_INTERNAL_FILE_DATA \<Rightarrow> int32 \<times> ACES_INTERNAL_FILE_DATA" where
  "lines_per_block f =
     (let c = compression f in
      if c = 0 \<or> c = 1 \<or> c = 2 then (1, f)
      else if c = 3 \<or> c = 5 then (16, f)
      else if c = 4 \<or> c = 6 \<or> c = 7 then (32, f)
      else (- 1, print_error f (UnknownCompression (given_filename f) c)))"

text \<open>\<open>compute_scanline_block_info\<close>: the results \<open>*lines_per\<close> and \<open>*n_blocks\<close>, and
  the file structure (an unknown compression prints a message).\<close>

definition compute_scanline_block_info ::
  "ACES_INTERNAL_FILE_DATA \<Rightarrow> int32 \<times> int32 \<times> ACES_INTERNAL_FILE_DATA" where
  "compute_scanline_block_info f =
     (let (lines_per, f1) = lines_per_block f;
          n_lines = y_max (data_window f) - y_min (data_window f);
          n_blocks = (if 0 < sint lines_per
                      then c_div (n_lines + lines_per - 1) lines_per
                      else 0)
      in (lines_per, n_blocks, f1))"

subsection \<open>Names and type names\<close>

text \<open>\<open>read_string\<close>: the loop \<open>while ( pos < 32 )\<close> with the test \<open>pos == 32\<close> after it.
  \<open>attrname\<close> is what has been stored into the caller's buffer so far.\<close>

function read_string_loop ::
  "ACES_INTERNAL_FILE_DATA \<Rightarrow> string \<Rightarrow> nat \<Rightarrow> string \<Rightarrow> int \<times> string \<times> ACES_INTERNAL_FILE_DATA" where
  "read_string_loop f kind pos attrname =
     (if pos < 32 then
        (let (rc, b, f1) = readfn f 1;
             f2 = f1\<lparr>cur_file_pos := cur_file_pos f1 + 1\<rparr>
         in if rc \<noteq> 1
            then (- 1, attrname, print_error f2 (NameEOF (given_filename f2) kind attrname))
            else if b = [CHR 0x00] then (int pos, attrname, f2)
            else read_string_loop f2 kind (pos + 1) (attrname @ b))
      else (- 1, take 31 attrname,
            print_error f (NameTooLong (given_filename f) kind (take 31 attrname))))"
  by pat_completeness auto
termination
  by (relation "measure (\<lambda>(f, kind, pos, attrname). 32 - pos)") auto

declare read_string_loop.simps [simp del]

definition read_string ::
  "ACES_INTERNAL_FILE_DATA \<Rightarrow> string \<Rightarrow> int \<times> string \<times> ACES_INTERNAL_FILE_DATA" where
  "read_string f kind = read_string_loop f kind 0 []"

definition the_predefined_attr_typenames :: "string list" where
  "the_predefined_attr_typenames =
     [''box2i'', ''box2f'', ''chlist'', ''chromaticities'', ''compression'', ''double'',
      ''envmap'', ''float'', ''int'', ''keycode'', ''lineOrder'', ''m33f'', ''m44f'',
      ''preview'', ''rational'', ''string'', ''stringvector'', ''tiledesc'', ''timecode'',
      ''v2i'', ''v2f'', ''v3i'', ''v3f'']"

text \<open>The enumeration \<open>ACES_ATTRIBUTE_TYPE\<close> in the order of its values, for the cast
  \<open>(ACES_ATTRIBUTE_TYPE)( idx + 1 )\<close>.\<close>

definition attribute_type_values :: "ACES_ATTRIBUTE_TYPE list" where
  "attribute_type_values =
     [ACES_ATTR_UNKNOWN, ACES_ATTR_BOX2I, ACES_ATTR_BOX2F, ACES_ATTR_CHLIST,
      ACES_ATTR_CHROMATICITIES, ACES_ATTR_COMPRESSION, ACES_ATTR_DOUBLE, ACES_ATTR_ENVMAP,
      ACES_ATTR_FLOAT, ACES_ATTR_INT, ACES_ATTR_KEYCODE, ACES_ATTR_LINEORDER, ACES_ATTR_M33F,
      ACES_ATTR_M44F, ACES_ATTR_PREVIEW, ACES_ATTR_RATIONAL, ACES_ATTR_STRING,
      ACES_ATTR_STRING_VECTOR, ACES_ATTR_TILEDESC, ACES_ATTR_TIMECODE, ACES_ATTR_V2I,
      ACES_ATTR_V2F, ACES_ATTR_V3I, ACES_ATTR_V3F, ACES_ATTR_USER]"

fun typename_index :: "string list \<Rightarrow> nat \<Rightarrow> string \<Rightarrow> nat option" where
  "typename_index [] idx attrname = None"
| "typename_index (t # ts) idx attrname =
     (if strcmp t attrname = 0 then Some idx else typename_index ts (idx + 1) attrname)"

definition attr_name_to_type :: "string \<Rightarrow> ACES_ATTRIBUTE_TYPE" where
  "attr_name_to_type attrname =
     (if attrname = [] then ACES_ATTR_UNKNOWN
      else case typename_index the_predefined_attr_typenames 0 attrname of
             Some idx \<Rightarrow> attribute_type_values ! (idx + 1)
           | None \<Rightarrow> ACES_ATTR_USER)"

subsection \<open>Readers of attribute payloads\<close>

definition attr_check_size_and_read ::
  "ACES_INTERNAL_FILE_DATA \<Rightarrow> int32 \<Rightarrow> nat \<Rightarrow> string
     \<Rightarrow> int \<times> string \<times> ACES_INTERNAL_FILE_DATA" where
  "attr_check_size_and_read f given nativesize tname =
     (if size_t_of_int32 given \<noteq> nativesize
      then (- 1, [], print_error f (SizeMismatch (given_filename f) nativesize tname given))
      else
        (let (nr, data, f1) = readfn f nativesize;
             f2 = f1\<lparr>cur_file_pos := cur_file_pos f1 + nat nr\<rparr>
         in if nat nr \<noteq> nativesize
            then (- 1, data, print_error f2 (TruncatedRead (given_filename f2) tname))
            else (1, data, f2)))"

text \<open>\<open>attr_read_string\<close>, with the branch \<open>#else ssize = size;\<close> that is compiled.\<close>

definition attr_read_string ::
  "ACES_INTERNAL_FILE_DATA \<Rightarrow> int32 \<Rightarrow> int \<times> aces_attr_string \<times> ACES_INTERNAL_FILE_DATA" where
  "attr_read_string f sz =
     (let ssize = sz in
      if \<not> malloc_ok f (size_t_of_int32 ssize)
      then (- 1, \<lparr>length_s = ssize, str = None\<rparr>,
            print_error f (StringAllocFailed (given_filename f) ssize))
      else
        (let (nr, outstr, f1) = readfn f (size_t_of_int32 ssize);
             f2 = f1\<lparr>cur_file_pos := cur_file_pos f1 + nat nr\<rparr>
         in if nr \<noteq> sint ssize
            then (- 1, \<lparr>length_s = ssize, str = None\<rparr>,
                  print_error f2 (StringTruncated (given_filename f2) ssize))
            else (1, \<lparr>length_s = ssize, str = Some outstr\<rparr>, f2)))"

definition attr_read_userdata ::
  "ACES_INTERNAL_FILE_DATA \<Rightarrow> int32 \<Rightarrow> int \<times> aces_attr_userdata \<times> ACES_INTERNAL_FILE_DATA" where
  "attr_read_userdata f sz =
     (if \<not> malloc_ok f (size_t_of_int32 sz)
      then (- 1, \<lparr>size_u = size_t_of_int32 sz, data_u = None\<rparr>,
            print_error f (UserdataAllocFailed (given_filename f) sz))
      else
        (let (nr, dstdata, f1) = readfn f (size_t_of_int32 sz);
             f2 = f1\<lparr>cur_file_pos := cur_file_pos f1 + nat nr\<rparr>
         in if nr \<noteq> sint sz
            then (- 1, \<lparr>size_u = size_t_of_int32 sz, data_u = None\<rparr>,
                  print_error f2 (UserdataTruncated (given_filename f2) sz))
            else (1, \<lparr>size_u = size_t_of_int32 sz, data_u = Some dstdata\<rparr>, f2)))"

text \<open>\<open>attr_read_preview\<close>. The guard of the source is \<open>size <= 4\<close>. The product
  \<open>4 * dims[0] * dims[1]\<close> is computed in \<open>uint32_t\<close> before it becomes a \<open>size_t\<close>.\<close>

definition attr_read_preview ::
  "ACES_INTERNAL_FILE_DATA \<Rightarrow> int32 \<Rightarrow> int \<times> aces_attr_preview \<times> ACES_INTERNAL_FILE_DATA" where
  "attr_read_preview f sz =
     (if sint sz \<le> 4
      then (- 1, \<lparr>width = 0, height = 0, rgba = None\<rparr>,
            print_error f (PreviewTooSmall (given_filename f)))
      else
        (let (nr, dims, f1) = readfn f 8;
             f2 = f1\<lparr>cur_file_pos := cur_file_pos f1 + nat nr\<rparr>
         in if nr \<noteq> 8
            then (- 1, \<lparr>width = 0, height = 0, rgba = None\<rparr>,
                  print_error f2 (PreviewDimsTruncated (given_filename f2)))
            else
              (let dims0 = le32 (take 4 dims);
                   dims1 = le32 (drop 4 dims);
                   nToR = unat (4 * dims0 * dims1)
               in if \<not> malloc_ok f2 nToR
                  then (- 1, \<lparr>width = dims0, height = dims1, rgba = None\<rparr>,
                        print_error f2 (PreviewAllocFailed (given_filename f2) dims0 dims1))
                  else
                    (let (nr2, rgbaptr, f3) = readfn f2 nToR;
                         f4 = f3\<lparr>cur_file_pos := cur_file_pos f3 + nat nr2\<rparr>
                     in if nat nr2 \<noteq> nToR
                        then (- 1, \<lparr>width = dims0, height = dims1, rgba = None\<rparr>,
                              print_error f4 (PreviewDataTruncated (given_filename f4) nToR))
                        else (1, \<lparr>width = dims0, height = dims1, rgba = Some rgbaptr\<rparr>,
                              f4)))))"



subsection \<open>The channel list\<close>

text \<open>The inner loop of \<open>attr_read_chlist\<close> that links the new node into the temporary
  list: it walks past every node whose name is not greater than the new one.\<close>

fun insert_channel ::
  "aces_attr_chlist_entry \<Rightarrow> aces_attr_chlist_entry list \<Rightarrow> aces_attr_chlist_entry list" where
  "insert_channel new_chan [] = [new_chan]"
| "insert_channel new_chan (cur_chan # rest) =
     (if strcmp (name new_chan) (name cur_chan) < 0 then new_chan # cur_chan # rest
      else cur_chan # insert_channel new_chan rest)"

text \<open>Sizes of the structures the reader allocates (LP64, enumerations of 4 bytes).\<close>

definition sizeof_tmp_ch_list :: nat where "sizeof_tmp_ch_list = 56"
definition sizeof_chlist_entry :: nat where "sizeof_chlist_entry = 48"
definition sizeof_user_attribute_list :: nat where "sizeof_user_attribute_list = 128"
definition sizeof_file_data :: nat where "sizeof_file_data = 416"

lemma read_string_loop_length:
  "length (user_file (snd (snd (read_string_loop f kind pos attrname)))) \<le> length (user_file f)"
proof (induction f kind pos attrname rule: read_string_loop.induct)
  case (1 f kind pos attrname)
  show ?case
  proof (cases "pos < 32 \<and> fst (readfn f 1) = 1 \<and> fst (snd (readfn f 1)) \<noteq> [CHR 0x00]")
    case True
    then have "length (user_file (snd (snd (read_string_loop
                 ((snd (snd (readfn f 1)))\<lparr>cur_file_pos := cur_file_pos (snd (snd (readfn f 1))) + 1\<rparr>)
                 kind (pos + 1) (attrname @ fst (snd (readfn f 1)))))))
               \<le> length (user_file ((snd (snd (readfn f 1)))
                     \<lparr>cur_file_pos := cur_file_pos (snd (snd (readfn f 1))) + 1\<rparr>))"
      by (intro "1.IH" [of "readfn f 1" "fst (readfn f 1)" "snd (readfn f 1)"
            "fst (snd (readfn f 1))" "snd (snd (readfn f 1))"]) (simp_all add: prod_eq_iff)
    with True show ?thesis
      by (subst read_string_loop.simps) (simp add: split_beta Let_def readfn_def)
  next
    case False
    then show ?thesis
      by (subst read_string_loop.simps)
        (auto simp: split_beta Let_def readfn_def print_error_def)
  qed
qed

lemma read_string_length:
  "read_string f kind = (r, nm, f') \<Longrightarrow> length (user_file f') \<le> length (user_file f)"
  using read_string_loop_length [of f kind 0 "[]"] by (simp add: read_string_def)

lemma attr_check_size_and_read_length:
  "attr_check_size_and_read f given n tname = (r, d, f')
   \<Longrightarrow> length (user_file f') \<le> length (user_file f)"
  by (auto simp: attr_check_size_and_read_def readfn_def print_error_def Let_def
      split: if_splits)

lemma attr_check_size_and_read_consumes:
  "attr_check_size_and_read f given n tname = (r, d, f') \<Longrightarrow> \<not> r < 0
   \<Longrightarrow> length (user_file f') + n = length (user_file f)"
  by (auto simp: attr_check_size_and_read_def readfn_def print_error_def Let_def
      split: if_splits)

text \<open>The loop \<open>while ( read_string( f, chstr, "channel" ) )\<close> of \<open>attr_read_chlist\<close>. The
  condition is the value of \<open>read_string\<close> itself, so the body also runs when that is
  \<open>-1\<close>. The result is \<open>ret\<close>, the temporary list, \<open>dest->num_channels\<close> and the file.\<close>

function chlist_loop ::
  "ACES_INTERNAL_FILE_DATA \<Rightarrow> aces_attr_chlist_entry list \<Rightarrow> int
     \<Rightarrow> int \<times> aces_attr_chlist_entry list \<times> int \<times> ACES_INTERNAL_FILE_DATA" where
  "chlist_loop f channel_list num =
     (let (rs, chstr, f0) = read_string f ''channel'' in
      if rs = 0 then (1, channel_list, num, f0)
      else if \<not> malloc_ok f0 sizeof_tmp_ch_list
      then (- 1, channel_list, 0, print_error f0 (ChlistTmpAllocFailed (given_filename f0)))
      else
        (let (r1, b1, f1) = attr_check_size_and_read f0 4 4 ''channel pixel type'' in
         if r1 < 0 then (- 1, channel_list, 0, f1)
         else
           (let (r2, b2, f2) = attr_check_size_and_read f1 1 1 ''channel linear flag'' in
            if r2 < 0 then (- 1, channel_list, 0, f2)
            else
              (let (r3, b3, f3) = attr_check_size_and_read f2 3 3 ''channel padding'' in
               if r3 < 0 then (- 1, channel_list, 0, f3)
               else
                 (let (r4, b4, f4) = attr_check_size_and_read f3 4 4 ''channel x sampling'' in
                  if r4 < 0 then (- 1, channel_list, 0, f4)
                  else
                    (let (r5, b5, f5) = attr_check_size_and_read f4 4 4 ''channel y sampling'' in
                     if r5 < 0 then (- 1, channel_list, 0, f5)
                     else
                       chlist_loop f5
                         (insert_channel
                            \<lparr>name = chstr, pixel_type = le32 b1, p_linear = le8 b2,
                             reserved = b3, x_sampling = le32 b4, y_sampling = le32 b5\<rparr>
                            channel_list)
                         (num + 1)))))))"
  by pat_completeness auto
termination
proof (relation "measure (\<lambda>(f, channel_list, num). length (user_file f))", goal_cases)
  case 1
  show ?case by simp
next
  case (2 f channel_list num x rs y chstr f0 x2 r1 y2 b1 f1 x3 r2 y3 b2 f2 x4 r3 y4 b3 f3
      x5 r4 y5 b4 f4 x6 r5 y6 b5 f5)
  have a: "length (user_file f0) \<le> length (user_file f)"
    using 2 read_string_length [of f "''channel''" rs chstr f0] by simp
  have b: "length (user_file f1) + 4 = length (user_file f0)"
    using 2 attr_check_size_and_read_consumes [of f0 4 4 "''channel pixel type''" r1 b1 f1]
    by simp
  have c: "length (user_file f2) \<le> length (user_file f1)"
    using 2 attr_check_size_and_read_length [of f1 1 1 "''channel linear flag''" r2 b2 f2]
    by simp
  have d: "length (user_file f3) \<le> length (user_file f2)"
    using 2 attr_check_size_and_read_length [of f2 3 3 "''channel padding''" r3 b3 f3]
    by simp
  have e: "length (user_file f4) \<le> length (user_file f3)"
    using 2 attr_check_size_and_read_length [of f3 4 4 "''channel x sampling''" r4 b4 f4]
    by simp
  have g: "length (user_file f5) \<le> length (user_file f4)"
    using 2 attr_check_size_and_read_length [of f4 4 4 "''channel y sampling''" r5 b5 f5]
    by simp
  show ?case using a b c d e g by simp
qed

declare chlist_loop.simps [simp del]

text \<open>\<open>attr_read_chlist\<close>. The parameter \<open>size\<close> is not used by the source.\<close>

definition attr_read_chlist ::
  "ACES_INTERNAL_FILE_DATA \<Rightarrow> int32 \<Rightarrow> int \<times> aces_attr_chlist \<times> ACES_INTERNAL_FILE_DATA" where
  "attr_read_chlist f sz =
     (let (ret, channel_list, num, f1) = chlist_loop f [] 0 in
      if 0 < num then
        (if \<not> malloc_ok f1 (nat num * sizeof_chlist_entry)
         then (- 1, \<lparr>num_channels = num, entries = None\<rparr>,
               print_error f1 (ChlistAllocFailed (given_filename f1) num))
         else (ret, \<lparr>num_channels = num, entries = Some (take (nat num) channel_list)\<rparr>, f1))
      else (ret, \<lparr>num_channels = num, entries = None\<rparr>, f1))"


subsection \<open>Reading one attribute\<close>

text \<open>The \<open>sizeof\<close> of the member that each fixed-size case of the \<open>switch\<close> in
  \<open>read_attribute\<close> passes to \<open>attr_check_size_and_read\<close>; the structures are packed, an
  enumeration takes 4 bytes.\<close>

fun native_size :: "ACES_ATTRIBUTE_TYPE \<Rightarrow> nat option" where
  "native_size ACES_ATTR_BOX2I = Some 16"
| "native_size ACES_ATTR_BOX2F = Some 16"
| "native_size ACES_ATTR_CHROMATICITIES = Some 32"
| "native_size ACES_ATTR_COMPRESSION = Some 1"
| "native_size ACES_ATTR_DOUBLE = Some 8"
| "native_size ACES_ATTR_ENVMAP = Some 1"
| "native_size ACES_ATTR_FLOAT = Some 4"
| "native_size ACES_ATTR_INT = Some 4"
| "native_size ACES_ATTR_KEYCODE = Some 28"
| "native_size ACES_ATTR_LINEORDER = Some 1"
| "native_size ACES_ATTR_M33F = Some 36"
| "native_size ACES_ATTR_M44F = Some 64"
| "native_size ACES_ATTR_RATIONAL = Some 8"
| "native_size ACES_ATTR_TILEDESC = Some 16"
| "native_size ACES_ATTR_TIMECODE = Some 8"
| "native_size ACES_ATTR_V2I = Some 8"
| "native_size ACES_ATTR_V2F = Some 8"
| "native_size ACES_ATTR_V3I = Some 12"
| "native_size ACES_ATTR_V3F = Some 12"
| "native_size ACES_ATTR_STRING = None"
| "native_size ACES_ATTR_PREVIEW = None"
| "native_size ACES_ATTR_CHLIST = None"
| "native_size ACES_ATTR_USER = None"
| "native_size ACES_ATTR_STRING_VECTOR = None"
| "native_size ACES_ATTR_UNKNOWN = None"

text \<open>The \<open>switch ( attr->type )\<close>: the fixed-size cases, then string, preview, chlist and
  user, then \<open>default\<close> (which \<open>ACES_ATTR_STRING_VECTOR\<close> reaches too).\<close>

definition read_attribute_payload ::
  "ACES_INTERNAL_FILE_DATA \<Rightarrow> string \<Rightarrow> string \<Rightarrow> int32 \<Rightarrow> aces_attribute
     \<Rightarrow> int \<times> aces_attribute \<times> ACES_INTERNAL_FILE_DATA" where
  "read_attribute_payload f attrname tname asize attr =
     (case native_size (type attr) of
        Some nativesize \<Rightarrow>
          (let (ret, data, f1) = attr_check_size_and_read f asize nativesize tname
           in (ret, attr\<lparr>payload := U_bytes data\<rparr>, f1))
      | None \<Rightarrow>
          (if type attr = ACES_ATTR_STRING then
             (let (ret, s, f1) = attr_read_string f asize
              in (ret, attr\<lparr>payload := U_string s\<rparr>, f1))
           else if type attr = ACES_ATTR_PREVIEW then
             (let (ret, p, f1) = attr_read_preview f asize
              in (ret, attr\<lparr>payload := U_preview p\<rparr>, f1))
           else if type attr = ACES_ATTR_CHLIST then
             (let (ret, c, f1) = attr_read_chlist f asize
              in (ret, attr\<lparr>payload := U_chlist c\<rparr>, f1))
           else if type attr = ACES_ATTR_USER then
             (let (ret, u, f1) = attr_read_userdata f asize
              in (ret, attr\<lparr>type_name := Some tname, payload := U_userdata u\<rparr>, f1))
           else (- 1, attr,
                 print_error f (UnknownAttributeType (given_filename f) attrname tname))))"

definition read_attribute ::
  "ACES_INTERNAL_FILE_DATA \<Rightarrow> int \<times> string \<times> aces_attribute \<times> ACES_INTERNAL_FILE_DATA" where
  "read_attribute f =
     (let attr = \<lparr>type_name = None, type = ACES_ATTR_UNKNOWN, payload = U_zero\<rparr>;
          (pos, attrname, f1) = read_string f ''attribute''
      in if pos \<le> 0 then (pos, attrname, attr, f1)
         else
           (let (pos2, tname, f2) = read_string f1 ''type''
            in if pos2 < 0 then (- 1, attrname, attr, f2)
               else
                 (let (rc, asize_bytes, f3) = readfn f2 4;
                      f4 = f3\<lparr>cur_file_pos := cur_file_pos f3 + nat rc\<rparr>
                  in if rc \<noteq> 4
                     then (- 1, attrname, attr,
                           print_error f4 (AttrSizeTruncated (given_filename f4) attrname))
                     else
                       (let (ret, attr', f5) =
                              read_attribute_payload f4 attrname tname (le32 asize_bytes)
                                (attr\<lparr>type := attr_name_to_type tname\<rparr>)
                        in (ret, attrname, attr', f5)))))"

subsection \<open>Storing an attribute in the header\<close>

text \<open>\<open>add_attribute\<close> reads the union through the member the attribute's name calls for,
  whatever the type was. \<open>union_bytes\<close> is the start of the union's memory as far as it
  holds no pointer, and \<open>union_image\<close> its first \<open>n\<close> bytes, zero where nothing was stored
  (\<open>read_attribute\<close> clears the attribute first; the bytes of a pointer are not part of
  this model and read as zero).\<close>

definition union_bytes :: "attr_union \<Rightarrow> string" where
  "union_bytes u =
     (case u of
        U_zero \<Rightarrow> []
      | U_bytes bs \<Rightarrow> bs
      | U_chlist c \<Rightarrow> bytes_le 4 (nat (num_channels c mod 2 ^ 32))
      | U_preview p \<Rightarrow> bytes_le 4 (unat (width p)) @ bytes_le 4 (unat (height p))
      | U_string s \<Rightarrow> bytes_le 4 (unat (length_s s))
      | U_userdata d \<Rightarrow> bytes_le 8 (size_u d))"

definition union_image :: "attr_union \<Rightarrow> nat \<Rightarrow> string" where
  "union_image u n = take n (union_bytes u @ replicate n (CHR 0x00))"

definition attr_uc :: "aces_attribute \<Rightarrow> uint8" where
  "attr_uc a = le8 (union_image (payload a) 1)"

definition attr_f :: "aces_attribute \<Rightarrow> 32 word" where
  "attr_f a = le32 (union_image (payload a) 4)"

definition attr_box2i :: "aces_attribute \<Rightarrow> aces_attr_box2i" where
  "attr_box2i a =
     (let m = union_image (payload a) 16
      in \<lparr>x_min = le32 m, y_min = le32 (drop 4 m), x_max = le32 (drop 8 m),
          y_max = le32 (drop 12 m)\<rparr>)"

definition attr_v2f :: "aces_attribute \<Rightarrow> aces_attr_v2f" where
  "attr_v2f a =
     (let m = union_image (payload a) 8 in \<lparr>v2f_x = le32 m, v2f_y = le32 (drop 4 m)\<rparr>)"

definition attr_tiledesc :: "aces_attribute \<Rightarrow> aces_attr_tiledesc" where
  "attr_tiledesc a =
     (let m = union_image (payload a) 16
      in \<lparr>x_size = le32 m, y_size = le32 (drop 4 m), level_type = le32 (drop 8 m),
          round_mode = le32 (drop 12 m)\<rparr>)"

definition attr_chlist :: "aces_attribute \<Rightarrow> aces_attr_chlist" where
  "attr_chlist a =
     (case payload a of
        U_chlist c \<Rightarrow> c
      | u \<Rightarrow> \<lparr>num_channels = sint (le32 (union_image u 4)), entries = None\<rparr>)"

definition REQ_CHANNELS_MASK :: "16 word" where "REQ_CHANNELS_MASK = 0x0001"
definition REQ_COMP_MASK :: "16 word" where "REQ_COMP_MASK = 0x0002"
definition REQ_DATA_MASK :: "16 word" where "REQ_DATA_MASK = 0x0004"
definition REQ_DISP_MASK :: "16 word" where "REQ_DISP_MASK = 0x0008"
definition REQ_LO_MASK :: "16 word" where "REQ_LO_MASK = 0x0010"
definition REQ_PAR_MASK :: "16 word" where "REQ_PAR_MASK = 0x0020"
definition REQ_SCR_WC_MASK :: "16 word" where "REQ_SCR_WC_MASK = 0x0040"
definition REQ_SCR_WW_MASK :: "16 word" where "REQ_SCR_WW_MASK = 0x0080"
definition REQ_TILES_MASK :: "16 word" where "REQ_TILES_MASK = 0x0100"

text \<open>What stops the program instead of returning: \<open>memset\<close> through the null pointer
  of a failed \<open>malloc\<close>, and the use of a file structure that has been freed.\<close>

datatype fault = NullWrite | UseAfterFree nat

text \<open>\<open>add_attribute\<close>. The \<open>malloc\<close> of the list node is not checked by the source before
  \<open>memset\<close> writes through it: where it fails the result is the fault.\<close>

definition add_attribute ::
  "ACES_INTERNAL_FILE_DATA \<Rightarrow> string \<Rightarrow> aces_attribute
     \<Rightarrow> fault + 16 word \<times> ACES_INTERNAL_FILE_DATA" where
  "add_attribute f attrname attr =
     (if strcmp attrname ''channels'' = 0
      then Inr (REQ_CHANNELS_MASK, f\<lparr>channels := attr_chlist attr\<rparr>)
      else if strcmp attrname ''compression'' = 0
      then Inr (REQ_COMP_MASK, f\<lparr>compression := attr_uc attr\<rparr>)
      else if strcmp attrname ''dataWindow'' = 0
      then Inr (REQ_DATA_MASK, f\<lparr>data_window := attr_box2i attr\<rparr>)
      else if strcmp attrname ''displayWindow'' = 0
      then Inr (REQ_DISP_MASK, f\<lparr>display_window := attr_box2i attr\<rparr>)
      else if strcmp attrname ''lineOrder'' = 0
      then Inr (REQ_LO_MASK, f\<lparr>line_order := attr_uc attr\<rparr>)
      else if strcmp attrname ''pixelAspectRatio'' = 0
      then Inr (REQ_PAR_MASK, f\<lparr>pixel_aspect_ratio := attr_f attr\<rparr>)
      else if strcmp attrname ''screenWindowCenter'' = 0
      then Inr (REQ_SCR_WC_MASK, f\<lparr>screen_window_center := attr_v2f attr\<rparr>)
      else if strcmp attrname ''screenWindowWidth'' = 0
      then Inr (REQ_SCR_WW_MASK, f\<lparr>screen_window_width := attr_f attr\<rparr>)
      else if strcmp attrname ''tiles'' = 0 \<and> storage_mode f = ACES_STORAGE_TILED
      then Inr (REQ_TILES_MASK, f\<lparr>tile_info := attr_tiledesc attr\<rparr>)
      else if \<not> malloc_ok f sizeof_user_attribute_list then Inl NullWrite
      else Inr (0, f\<lparr>user_attributes := user_attributes f @ [(attrname, attr)]\<rparr>))"

subsection \<open>Validation of the required attributes\<close>

definition check_attr_mask ::
  "ACES_INTERNAL_FILE_DATA \<Rightarrow> 16 word \<Rightarrow> 16 word \<Rightarrow> string \<Rightarrow> int \<times> ACES_INTERNAL_FILE_DATA" where
  "check_attr_mask f v msk nm =
     (if v AND msk = 0
      then (1, print_error f (MissingRequiredAttribute (given_filename f) nm))
      else (0, f))"

definition report_missing_attributes ::
  "ACES_INTERNAL_FILE_DATA \<Rightarrow> 16 word \<Rightarrow> int \<times> ACES_INTERNAL_FILE_DATA" where
  "report_missing_attributes f accumAttrsRead =
     (let (n1, f1) = check_attr_mask f accumAttrsRead REQ_CHANNELS_MASK ''channels'';
          (n2, f2) = check_attr_mask f1 accumAttrsRead REQ_COMP_MASK ''compression'';
          (n3, f3) = check_attr_mask f2 accumAttrsRead REQ_DATA_MASK ''dataWindow'';
          (n4, f4) = check_attr_mask f3 accumAttrsRead REQ_DISP_MASK ''displayWindow'';
          (n5, f5) = check_attr_mask f4 accumAttrsRead REQ_LO_MASK ''lineOrder'';
          (n6, f6) = check_attr_mask f5 accumAttrsRead REQ_PAR_MASK ''pixelAspectRatio'';
          (n7, f7) = check_attr_mask f6 accumAttrsRead REQ_SCR_WC_MASK ''screenWindowCenter'';
          (n8, f8) = check_attr_mask f7 accumAttrsRead REQ_SCR_WW_MASK ''screenWindowWidth'';
          numMissing = n1 + n2 + n3 + n4 + n5 + n6 + n7 + n8
      in if storage_mode f8 = ACES_STORAGE_TILED
         then (let (n9, f9) = check_attr_mask f8 accumAttrsRead REQ_TILES_MASK ''tiles''
               in (numMissing + n9, f9))
         else (numMissing, f8))"


subsection \<open>The header\<close>

lemma attr_read_string_length:
  "attr_read_string f sz = (r, d, f') \<Longrightarrow> length (user_file f') \<le> length (user_file f)"
  by (auto simp: attr_read_string_def readfn_def print_error_def Let_def split: if_splits)

lemma attr_read_userdata_length:
  "attr_read_userdata f sz = (r, d, f') \<Longrightarrow> length (user_file f') \<le> length (user_file f)"
  by (auto simp: attr_read_userdata_def readfn_def print_error_def Let_def split: if_splits)

lemma attr_read_preview_length:
  "attr_read_preview f sz = (r, d, f') \<Longrightarrow> length (user_file f') \<le> length (user_file f)"
  by (auto simp: attr_read_preview_def readfn_def print_error_def Let_def split: if_splits)

lemma chlist_loop_length:
  "length (user_file (snd (snd (snd (chlist_loop f cl num))))) \<le> length (user_file f)"
proof (induction "length (user_file f)" arbitrary: f cl num rule: less_induct)
  case less
  obtain rs chstr f0 where rs: "read_string f ''channel'' = (rs, chstr, f0)"
    by (cases "read_string f ''channel''") auto
  obtain r1 b1 f1 where r1: "attr_check_size_and_read f0 4 4 ''channel pixel type'' = (r1, b1, f1)"
    by (cases "attr_check_size_and_read f0 4 4 ''channel pixel type''") auto
  obtain r2 b2 f2 where r2: "attr_check_size_and_read f1 1 1 ''channel linear flag'' = (r2, b2, f2)"
    by (cases "attr_check_size_and_read f1 1 1 ''channel linear flag''") auto
  obtain r3 b3 f3 where r3: "attr_check_size_and_read f2 3 3 ''channel padding'' = (r3, b3, f3)"
    by (cases "attr_check_size_and_read f2 3 3 ''channel padding''") auto
  obtain r4 b4 f4 where r4: "attr_check_size_and_read f3 4 4 ''channel x sampling'' = (r4, b4, f4)"
    by (cases "attr_check_size_and_read f3 4 4 ''channel x sampling''") auto
  obtain r5 b5 f5 where r5: "attr_check_size_and_read f4 4 4 ''channel y sampling'' = (r5, b5, f5)"
    by (cases "attr_check_size_and_read f4 4 4 ''channel y sampling''") auto
  note len = read_string_length [OF rs] attr_check_size_and_read_length [OF r1]
    attr_check_size_and_read_length [OF r2] attr_check_size_and_read_length [OF r3]
    attr_check_size_and_read_length [OF r4] attr_check_size_and_read_length [OF r5]
  show ?case
  proof (cases "rs \<noteq> 0 \<and> malloc_ok f0 sizeof_tmp_ch_list \<and> \<not> r1 < 0 \<and> \<not> r2 < 0 \<and> \<not> r3 < 0
                 \<and> \<not> r4 < 0 \<and> \<not> r5 < 0")
    case True
    then have "length (user_file f1) + 4 = length (user_file f0)"
      using attr_check_size_and_read_consumes [OF r1] by simp
    then have lt: "length (user_file f5) < length (user_file f)" using len by simp
    have "length (user_file (snd (snd (snd (chlist_loop f5
            (insert_channel
               \<lparr>name = chstr, pixel_type = le32 b1, p_linear = le8 b2,
                reserved = b3, x_sampling = le32 b4, y_sampling = le32 b5\<rparr> cl)
            (num + 1)))))) \<le> length (user_file f5)"
      by (rule less [OF lt])
    with True lt show ?thesis
      by (subst chlist_loop.simps) (simp add: rs r1 r2 r3 r4 r5 del: One_nat_def)
  next
    case False
    then show ?thesis using len
      by (subst chlist_loop.simps) (auto simp: rs r1 r2 r3 r4 r5 print_error_def simp del: One_nat_def)
  qed
qed

lemma attr_read_chlist_length:
  "attr_read_chlist f sz = (r, d, f') \<Longrightarrow> length (user_file f') \<le> length (user_file f)"
  using chlist_loop_length [of f "[]" 0]
  by (auto simp: attr_read_chlist_def print_error_def Let_def split_beta split: if_splits)

lemma read_attribute_payload_length:
  "read_attribute_payload f attrname tname asize attr = (r, a, f')
   \<Longrightarrow> length (user_file f') \<le> length (user_file f)"
  by (auto simp: read_attribute_payload_def print_error_def Let_def
      split: option.splits if_splits prod.splits
      dest: attr_check_size_and_read_length attr_read_string_length attr_read_userdata_length
        attr_read_preview_length attr_read_chlist_length)


lemma read_string_loop_consumes:
  "0 \<le> fst (read_string_loop f kind pos attrname)
   \<Longrightarrow> length (user_file (snd (snd (read_string_loop f kind pos attrname))))
       < length (user_file f)"
proof (induction f kind pos attrname rule: read_string_loop.induct)
  case (1 f kind pos attrname)
  let ?f2 = "(snd (snd (readfn f 1)))\<lparr>cur_file_pos := cur_file_pos (snd (snd (readfn f 1))) + 1\<rparr>"
  let ?b = "fst (snd (readfn f 1))"
  show ?case
  proof (cases "pos < 32 \<and> fst (readfn f 1) = 1 \<and> ?b \<noteq> [CHR 0x00]")
    case True
    have eq: "read_string_loop f kind pos attrname
              = read_string_loop ?f2 kind (pos + 1) (attrname @ ?b)"
      using True by (subst read_string_loop.simps) (simp add: split_beta Let_def)
    have "length (user_file (snd (snd (read_string_loop ?f2 kind (pos + 1) (attrname @ ?b)))))
          < length (user_file ?f2)"
      using True "1.prems" unfolding eq
      by (intro "1.IH" [of "readfn f 1" "fst (readfn f 1)" "snd (readfn f 1)"
            ?b "snd (snd (readfn f 1))"]) (simp_all add: prod_eq_iff)
    then show ?thesis unfolding eq by (simp add: readfn_def)
  next
    case False
    with "1.prems" show ?thesis
      by (subst read_string_loop.simps, subst (asm) read_string_loop.simps)
        (auto simp: split_beta Let_def readfn_def print_error_def split: if_splits)
  qed
qed

lemma read_string_consumes:
  "read_string f kind = (r, nm, f') \<Longrightarrow> 0 \<le> r \<Longrightarrow> length (user_file f') < length (user_file f)"
  using read_string_loop_consumes [of f kind 0 "[]"] by (simp add: read_string_def)

lemma read_attribute_consumes:
  assumes "read_attribute f = (rda, attrname, attr, f')" and "rda = 1"
  shows "length (user_file f') < length (user_file f)"
proof -
  obtain pos nm f1 where a: "read_string f ''attribute'' = (pos, nm, f1)"
    by (cases "read_string f ''attribute''") auto
  obtain pos2 tname f2 where b: "read_string f1 ''type'' = (pos2, tname, f2)"
    by (cases "read_string f1 ''type''") auto
  let ?f4 = "(snd (snd (readfn f2 4)))\<lparr>cur_file_pos := cur_file_pos (snd (snd (readfn f2 4)))
               + nat (fst (readfn f2 4))\<rparr>"
  obtain ret attr' f5 where c:
    "read_attribute_payload ?f4 nm tname (le32 (fst (snd (readfn f2 4))))
       (\<lparr>type_name = None, type = ACES_ATTR_UNKNOWN, payload = U_zero\<rparr>
          \<lparr>type := attr_name_to_type tname\<rparr>) = (ret, attr', f5)"
    by (metis prod_cases3)
  have p: "0 < pos" and q: "\<not> pos2 < 0" and e: "f' = f5"
    using assms a b c
    by (auto simp: read_attribute_def Let_def split_beta split: if_splits)
  have "length (user_file f1) < length (user_file f)"
    using read_string_consumes [OF a] p by simp
  moreover have "length (user_file f2) \<le> length (user_file f1)"
    by (rule read_string_length [OF b])
  moreover have "length (user_file ?f4) \<le> length (user_file f2)"
    by (simp add: readfn_def)
  moreover have "length (user_file f5) \<le> length (user_file ?f4)"
    by (rule read_attribute_payload_length [OF c])
  ultimately show ?thesis using e by simp
qed

lemma add_attribute_user_file:
  "add_attribute f attrname attr = Inr (m, f') \<Longrightarrow> user_file f' = user_file f"
  by (auto simp: add_attribute_def split: if_splits)

text \<open>The loop \<open>do \<dots> while ( rda == 1 )\<close> of \<open>read_header\<close>: its result is the last
  \<open>rda\<close>, \<open>reqMask\<close> and the file.\<close>

function read_attributes ::
  "ACES_INTERNAL_FILE_DATA \<Rightarrow> 16 word \<Rightarrow> fault + int \<times> 16 word \<times> ACES_INTERNAL_FILE_DATA" where
  "read_attributes f reqMask =
     (let (rda, attrname, curattr, f1) = read_attribute f in
      if rda = 1 then
        (case add_attribute f1 attrname curattr of
           Inl e \<Rightarrow> Inl e
         | Inr (m, f2) \<Rightarrow> read_attributes f2 (reqMask OR m))
      else Inr (rda, reqMask, f1))"
  by pat_completeness auto
termination
proof (relation "measure (\<lambda>(f, reqMask). length (user_file f))", goal_cases)
  case 1
  show ?case by simp
next
  case (2 f reqMask x rda y attrname z curattr f1 x2 m f2)
  have ra: "read_attribute f = (rda, attrname, curattr, f1)" and one: "rda = 1"
    using 2 by auto
  have "length (user_file f1) < length (user_file f)"
    by (rule read_attribute_consumes [OF ra one])
  moreover have "user_file f2 = user_file f1"
    using 2 add_attribute_user_file [of f1 attrname curattr m f2] by simp
  ultimately show ?case by simp
qed

declare read_attributes.simps [simp del]

definition read_header :: "ACES_INTERNAL_FILE_DATA \<Rightarrow> fault + int \<times> ACES_INTERNAL_FILE_DATA" where
  "read_header f =
     (let (nr, magic_version, f1) = readfn f 8 in
      if nr \<noteq> 8
      then Inr (- 1, print_error f1 (MagicVersionTruncated (given_filename f1)))
      else
        (let f2 = f1\<lparr>cur_file_pos := cur_file_pos f1 + 8\<rparr>;
             magic = le32 magic_version;
             version = le32 (drop 4 magic_version)
         in if magic \<noteq> 20000630
            then Inr (- 1, print_error f2 (BadMagic (given_filename f2) magic))
            else if version \<noteq> 0x2 \<and> version \<noteq> 0x202
            then Inr (- 1, print_error f2 (UnsupportedVersion (given_filename f2) version))
            else
              (let f3 = f2\<lparr>storage_mode :=
                            (if version = 0x202 then ACES_STORAGE_TILED
                             else ACES_STORAGE_SCANLINE)\<rparr>
               in case read_attributes f3 0 of
                    Inl e \<Rightarrow> Inl e
                  | Inr (rda, reqMask, f4) \<Rightarrow>
                      if rda < 0 then Inr (rda, f4)
                      else
                        (let (numMissing, f5) = report_missing_attributes f4 reqMask
                         in if 0 \<noteq> numMissing then Inr (- 1, f5) else Inr (0, f5)))))"


subsection \<open>Opening and closing\<close>

text \<open>
  The world around the library: the files that \<open>open\<close> finds, the file structures that
  are allocated (by address), the next address \<open>malloc\<close> hands out and the next
  descriptor of \<open>open\<close>, the memory limit, everything the error function has received,
  and the calls of \<open>free\<close> and \<open>close\<close> that were made.
\<close>

datatype release =
    FreedChannelEntries
  | FreedChlist
  | FreedPreview
  | FreedString
  | FreedTypeName
  | FreedUserdata
  | FreedUserAttribute string
  | ClosedFd int
  | FreedFileData nat

record world =
  files :: "string \<Rightarrow> string option"
  objs :: "nat \<Rightarrow> ACES_INTERNAL_FILE_DATA option"
  next_ptr :: nat
  next_fd :: int
  mem :: nat
  sink :: "err_msg list"
  released :: "release list"

definition release_attribute_memory :: "aces_attribute \<Rightarrow> release list" where
  "release_attribute_memory attr =
     (if type attr = ACES_ATTR_CHLIST then
        (case payload attr of
           U_chlist c \<Rightarrow> (if entries c \<noteq> None then [FreedChlist] else [])
         | _ \<Rightarrow> [])
      else if type attr = ACES_ATTR_PREVIEW then
        (case payload attr of
           U_preview p \<Rightarrow> (if rgba p \<noteq> None then [FreedPreview] else [])
         | _ \<Rightarrow> [])
      else if type attr = ACES_ATTR_STRING then
        (case payload attr of
           U_string s \<Rightarrow> (if str s \<noteq> None then [FreedString] else [])
         | _ \<Rightarrow> [])
      else if type attr = ACES_ATTR_USER then
        (if type_name attr \<noteq> None then [FreedTypeName] else []) @
        (case payload attr of
           U_userdata u \<Rightarrow> (if data_u u \<noteq> None then [FreedUserdata] else [])
         | _ \<Rightarrow> [])
      else [])"

text \<open>\<open>aces_close\<close>. A null pointer returns at once. Any other pointer is dereferenced:
  the structure must still be allocated at that address. Its buffers are freed, the
  descriptor is closed if it is not negative, and the structure itself is freed; the
  caller's pointer is a copy and stays as it was.\<close>

definition aces_close :: "world \<Rightarrow> nat option \<Rightarrow> fault + world" where
  "aces_close w f =
     (case f of
        None \<Rightarrow> Inr w
      | Some p \<Rightarrow>
          (case objs w p of
             None \<Rightarrow> Inl (UseAfterFree p)
           | Some pf \<Rightarrow>
               Inr (w\<lparr>objs := (objs w)(p := None),
                      released := released w
                        @ (if entries (channels pf) \<noteq> None then [FreedChannelEntries] else [])
                        @ concat (map (\<lambda>(nm, attr).
                                         release_attribute_memory attr @ [FreedUserAttribute nm])
                                    (user_attributes pf))
                        @ (if 0 \<le> fd pf then [ClosedFd (fd pf)] else [])
                        @ [FreedFileData p]\<rparr>)))"

text \<open>\<open>aces_start_read\<close>: the handle it returns (\<open>None\<close> is the null pointer) and the
  world after it. While the file cannot be opened the structure still has \<open>fd = 0\<close> from
  \<open>memset\<close> and no error callback, so the message goes to the default error function.\<close>

definition aces_start_read :: "world \<Rightarrow> string \<Rightarrow> fault + nat option \<times> world" where
  "aces_start_read w filename =
     (if filename = []
      then Inr (None, w\<lparr>sink := sink w @ [PlainMessage ''Invalid empty filename passed'']\<rparr>)
      else if \<not> sizeof_file_data \<le> mem w
      then Inr (None, w\<lparr>sink := sink w
                  @ [PlainMessage ''Unable to allocate file structure memory'']\<rparr>)
      else
        (let p = next_ptr w;
             ret = alloc_file_data_struct [] (mem w);
             w1 = w\<lparr>objs := (objs w)(p \<mapsto> ret), next_ptr := p + 1\<rparr>
         in case files w filename of
              None \<Rightarrow>
                (case aces_close (w1\<lparr>sink := sink w1 @ [OpenFailed filename]\<rparr>) (Some p) of
                   Inl e \<Rightarrow> Inl e
                 | Inr w2 \<Rightarrow> Inr (None, w2))
            | Some contents \<Rightarrow>
                (case read_header (ret\<lparr>fd := next_fd w, user_file := contents,
                                       given_filename := take 255 filename\<rparr>) of
                   Inl e \<Rightarrow> Inl e
                 | Inr (rc, ret') \<Rightarrow>
                     (let w2 = w1\<lparr>objs := (objs w1)(p \<mapsto> ret'),
                                   next_fd := next_fd w + 1,
                                   sink := sink w1 @ errors ret'\<rparr>
                      in if rc < 0
                         then (case aces_close w2 (Some p) of
                                 Inl e \<Rightarrow> Inl e
                               | Inr w3 \<Rightarrow> Inr (None, w3))
                         else Inr (Some p, w2)))))"

section \<open>Vocabulary of the statements\<close>

definition cstring :: "string \<Rightarrow> bool" where
  "cstring nm \<longleftrightarrow> CHR 0x00 \<notin> set nm \<and> length nm < 32"

definition attr_record_head :: "string \<Rightarrow> string \<Rightarrow> string \<Rightarrow> string" where
  "attr_record_head nm tname sz4 = nm @ CHR 0x00 # tname @ CHR 0x00 # sz4"

inductive loop_reaches ::
  "ACES_INTERNAL_FILE_DATA \<Rightarrow> 16 word \<Rightarrow> ACES_INTERNAL_FILE_DATA \<Rightarrow> 16 word \<Rightarrow> bool" where
  start: "loop_reaches f m f m"
| step: "loop_reaches f m f1 m1 \<Longrightarrow> read_attribute f1 = (1, nm, a, f2)
         \<Longrightarrow> add_attribute f2 nm a = Inr (b, f3) \<Longrightarrow> loop_reaches f m f3 (m1 OR b)"

text \<open>\<open>read_header\<close> after a magic number and a version that it accepts.\<close>

definition header_start :: "ACES_INTERNAL_FILE_DATA \<Rightarrow> ACES_INTERNAL_FILE_DATA" where
  "header_start f =
     f\<lparr>user_file := drop 8 (user_file f),
       cur_file_pos := cur_file_pos f + 8,
       storage_mode := (if le32 (drop 4 (user_file f)) = 0x202 then ACES_STORAGE_TILED
                        else ACES_STORAGE_SCANLINE)\<rparr>"

definition header_accepted :: "ACES_INTERNAL_FILE_DATA \<Rightarrow> bool" where
  "header_accepted f \<longleftrightarrow>
     8 \<le> length (user_file f) \<and> le32 (user_file f) = 20000630 \<and>
     (le32 (drop 4 (user_file f)) = 0x2 \<or> le32 (drop 4 (user_file f)) = 0x202)"

text \<open>The part of \<open>read_header\<close> after its loop, from \<open>EXIT POINT\<close> on.\<close>

definition header_exit ::
  "fault + int \<times> 16 word \<times> ACES_INTERNAL_FILE_DATA \<Rightarrow> fault + int \<times> ACES_INTERNAL_FILE_DATA" where
  "header_exit r =
     (case r of
        Inl e \<Rightarrow> Inl e
      | Inr (rda, reqMask, f4) \<Rightarrow>
          if rda < 0 then Inr (rda, f4)
          else (let (numMissing, f5) = report_missing_attributes f4 reqMask
                in if 0 \<noteq> numMissing then Inr (- 1, f5) else Inr (0, f5)))"

text \<open>The file structure that \<open>aces_start_read\<close> hands to \<open>read_header\<close>.\<close>

definition opened_file :: "world \<Rightarrow> string \<Rightarrow> string \<Rightarrow> ACES_INTERNAL_FILE_DATA" where
  "opened_file w filename contents =
     (alloc_file_data_struct [] (mem w))
       \<lparr>fd := next_fd w, user_file := contents, given_filename := take 255 filename\<rparr>"

definition can_open :: "world \<Rightarrow> string \<Rightarrow> string \<Rightarrow> bool" where
  "can_open w filename contents \<longleftrightarrow>
     filename \<noteq> [] \<and> sizeof_file_data \<le> mem w \<and> files w filename = Some contents"

text \<open>Channel lists: names without a NUL byte; the bytes of one channel in a payload (its
  name, a NUL, 16 bytes of fields), a whole payload, and the entry those bytes decode to.\<close>

definition nul_free_names :: "aces_attr_chlist_entry list \<Rightarrow> bool" where
  "nul_free_names cl \<longleftrightarrow> (\<forall>e \<in> set cl. CHR 0x00 \<notin> set (name e))"

definition channel_record :: "string \<times> string \<Rightarrow> string" where
  "channel_record c = fst c @ CHR 0x00 # snd c"

definition chlist_payload :: "(string \<times> string) list \<Rightarrow> string" where
  "chlist_payload chans = concat (map channel_record chans) @ [CHR 0x00]"

definition channel_decoded :: "string \<times> string \<Rightarrow> aces_attr_chlist_entry" where
  "channel_decoded c =
     \<lparr>name = fst c, pixel_type = le32 (snd c), p_linear = le8 (drop 4 (snd c)),
      reserved = take 3 (drop 5 (snd c)), x_sampling = le32 (drop 8 (snd c)),
      y_sampling = le32 (drop 12 (snd c))\<rparr>"

definition wellformed_channel :: "string \<times> string \<Rightarrow> bool" where
  "wellformed_channel c \<longleftrightarrow> fst c \<noteq> [] \<and> cstring (fst c) \<and> length (snd c) = 16"

text \<open>The attributes that \<open>report_missing_attributes\<close> checks, with their bits, in the
  order of its calls; the names among them whose bit is clear in a mask; and all the
  bits together.\<close>

definition required_attributes :: "ACES_STORAGE_TYPE \<Rightarrow> (16 word \<times> string) list" where
  "required_attributes sm =
     [(REQ_CHANNELS_MASK, ''channels''), (REQ_COMP_MASK, ''compression''),
      (REQ_DATA_MASK, ''dataWindow''), (REQ_DISP_MASK, ''displayWindow''),
      (REQ_LO_MASK, ''lineOrder''), (REQ_PAR_MASK, ''pixelAspectRatio''),
      (REQ_SCR_WC_MASK, ''screenWindowCenter''), (REQ_SCR_WW_MASK, ''screenWindowWidth'')]
     @ (if sm = ACES_STORAGE_TILED then [(REQ_TILES_MASK, ''tiles'')] else [])"

definition missing_names :: "ACES_STORAGE_TYPE \<Rightarrow> 16 word \<Rightarrow> string list" where
  "missing_names sm m = map snd (filter (\<lambda>(b, n). m AND b = 0) (required_attributes sm))"

definition required_mask :: "ACES_STORAGE_TYPE \<Rightarrow> 16 word" where
  "required_mask sm = (if sm = ACES_STORAGE_TILED then 0x1FF else 0xFF)"

text \<open>The names of the attributes that the loop of \<open>read_header\<close> reads, in the order of
  the file: the same loop as \<open>read_attributes\<close>, keeping the names.\<close>

function attribute_names :: "ACES_INTERNAL_FILE_DATA \<Rightarrow> string list" where
  "attribute_names f =
     (let (rda, attrname, curattr, f1) = read_attribute f in
      if rda = 1 then
        (case add_attribute f1 attrname curattr of
           Inl e \<Rightarrow> [attrname]
         | Inr (m, f2) \<Rightarrow> attrname # attribute_names f2)
      else [])"
  by pat_completeness auto
termination
proof (relation "measure (\<lambda>f. length (user_file f))", goal_cases)
  case 1
  show ?case by simp
next
  case (2 f x rda y attrname z curattr f1 x2 m f2)
  have ra: "read_attribute f = (rda, attrname, curattr, f1)" and one: "rda = 1"
    using 2 by auto
  have "length (user_file f1) < length (user_file f)"
    by (rule read_attribute_consumes [OF ra one])
  moreover have "user_file f2 = user_file f1"
    using 2 add_attribute_user_file [of f1 attrname curattr m f2] by simp
  ultimately show ?case by simp
qed

declare attribute_names.simps [simp del]

text \<open>The names alone, in the order of the checks.\<close>

definition required_names :: "ACES_STORAGE_TYPE \<Rightarrow> string list" where
  "required_names sm = map snd (required_attributes sm)"

text \<open>Two file structures that differ at most in the stream, the position and the header
  fields: same storage mode, file name, messages and memory limit.\<close>

definition same_context :: "ACES_INTERNAL_FILE_DATA \<Rightarrow> ACES_INTERNAL_FILE_DATA \<Rightarrow> bool" where
  "same_context f f' \<longleftrightarrow>
     storage_mode f' = storage_mode f \<and> given_filename f' = given_filename f \<and>
     errors f' = errors f \<and> malloc_limit f' = malloc_limit f"

section \<open>Concrete inputs\<close>

text \<open>Two headers for the block geometry: a zip file whose data window is inverted, and a
  zip file of 100 lines (in the convention of the block count).\<close>

definition inverted_window_file :: ACES_INTERNAL_FILE_DATA where
  "inverted_window_file =
     (alloc_file_data_struct [] 0)
       \<lparr>compression := 3,
        data_window := \<lparr>x_min = 0, y_min = 20, x_max = 0, y_max = 0\<rparr>\<rparr>"

definition zip_100_file :: ACES_INTERNAL_FILE_DATA where
  "zip_100_file =
     (alloc_file_data_struct [] 0)
       \<lparr>compression := 3,
        data_window := \<lparr>x_min = 0, y_min = 0, x_max = 0, y_max = 100\<rparr>\<rparr>"

definition exr_magic :: string where
  "exr_magic = [CHR 0x76, CHR 0x2F, CHR 0x31, CHR 0x01]"

definition version_scanline :: string where
  "version_scanline = [CHR 0x02, CHR 0x00, CHR 0x00, CHR 0x00]"

definition box2i_15_payload :: string where
  "box2i_15_payload = ''0123456789abcde''"

definition box2i_15_file :: ACES_INTERNAL_FILE_DATA where
  "box2i_15_file =
     alloc_file_data_struct
       (exr_magic @ version_scanline
        @ attr_record_head ''compression'' ''compression'' [CHR 0x01, CHR 0x00, CHR 0x00, CHR 0x00]
        @ [CHR 0x03]
        @ attr_record_head ''dataWindow'' ''box2i'' [CHR 0x0F, CHR 0x00, CHR 0x00, CHR 0x00]
        @ box2i_15_payload)
       4096"

text \<open>A header whose first attribute has an empty type name.\<close>

definition empty_type_file :: ACES_INTERNAL_FILE_DATA where
  "empty_type_file =
     alloc_file_data_struct
       (exr_magic @ version_scanline
        @ attr_record_head ''foo'' [] [CHR 0x04, CHR 0x00, CHR 0x00, CHR 0x00]
        @ ''abcd'')
       4096"

text \<open>The payload of a preview attribute of one pixel, with more bytes after it.\<close>

definition preview_size_6_file :: ACES_INTERNAL_FILE_DATA where
  "preview_size_6_file =
     alloc_file_data_struct
       ([CHR 0x01, CHR 0x00, CHR 0x00, CHR 0x00, CHR 0x01, CHR 0x00, CHR 0x00, CHR 0x00]
        @ ''RGBA'' @ ''next'')
       4096"

text \<open>A world with one open file structure at address 7, on descriptor 3.\<close>

definition one_handle_world :: world where
  "one_handle_world =
     \<lparr>files = (\<lambda>nm. None),
      objs = (\<lambda>p. if p = 7 then Some ((alloc_file_data_struct [] 4096)\<lparr>fd := 3\<rparr>) else None),
      next_ptr = 8, next_fd = 4, mem = 4096, sink = [], released = []\<rparr>"

text \<open>A stream that starts with the five bytes of \<open>hello\<close>.\<close>

definition hello_file :: ACES_INTERNAL_FILE_DATA where
  "hello_file = alloc_file_data_struct (''hello'' @ ''next'') 4096"

text \<open>Version words, and worlds with one file \<open>a.exr\<close>.\<close>

definition version_tiled :: string where
  "version_tiled = [CHR 0x02, CHR 0x02, CHR 0x00, CHR 0x00]"

definition version_3 :: string where
  "version_3 = [CHR 0x03, CHR 0x00, CHR 0x00, CHR 0x00]"

definition one_file_world :: "string \<Rightarrow> world" where
  "one_file_world contents =
     \<lparr>files = (\<lambda>nm. if nm = ''a.exr'' then Some contents else None),
      objs = (\<lambda>p. None),
      next_ptr = 1, next_fd = 3, mem = 4096, sink = [], released = []\<rparr>"

definition not_an_exr_world :: world where
  "not_an_exr_world =
     \<lparr>files = (\<lambda>nm. if nm = ''a.exr'' then Some ''NOT AN EXR FILE'' else None),
      objs = (\<lambda>p. None),
      next_ptr = 1, next_fd = 3, mem = 4096, sink = [], released = []\<rparr>"

text \<open>A channel list payload with the channels G, R, B, A in this order (half float,
  sampling 1 by 1), followed by more bytes.\<close>

definition half_1x1 :: string where
  "half_1x1 = [CHR 0x01, CHR 0x00, CHR 0x00, CHR 0x00, CHR 0x00, CHR 0x00, CHR 0x00, CHR 0x00,
               CHR 0x01, CHR 0x00, CHR 0x00, CHR 0x00, CHR 0x01, CHR 0x00, CHR 0x00, CHR 0x00]"

definition grba_channels :: "(string \<times> string) list" where
  "grba_channels = [(''G'', half_1x1), (''R'', half_1x1), (''B'', half_1x1), (''A'', half_1x1)]"

definition grba_file :: ACES_INTERNAL_FILE_DATA where
  "grba_file = alloc_file_data_struct (chlist_payload grba_channels @ ''next'') 4096"

text \<open>A zip header whose data window is inverted by 100 lines.\<close>

definition inverted_100_file :: ACES_INTERNAL_FILE_DATA where
  "inverted_100_file =
     (alloc_file_data_struct [] 0)
       \<lparr>compression := 3,
        data_window := \<lparr>x_min = 0, y_min = 100, x_max = 0, y_max = 0\<rparr>\<rparr>"

text \<open>A header with the eight attributes that every file must have, each with a payload of
  its type: the size words, a window, a float, the records and the terminating NUL; the
  same attributes behind a scanline and behind a tiled version word; and a header with no
  attribute at all.\<close>

definition size_1 :: string where "size_1 = [CHR 0x01, CHR 0x00, CHR 0x00, CHR 0x00]"
definition size_4 :: string where "size_4 = [CHR 0x04, CHR 0x00, CHR 0x00, CHR 0x00]"
definition size_8 :: string where "size_8 = [CHR 0x08, CHR 0x00, CHR 0x00, CHR 0x00]"
definition size_16 :: string where "size_16 = [CHR 0x10, CHR 0x00, CHR 0x00, CHR 0x00]"
definition size_73 :: string where "size_73 = [CHR 0x49, CHR 0x00, CHR 0x00, CHR 0x00]"

definition window_2x2 :: string where
  "window_2x2 = [CHR 0x00, CHR 0x00, CHR 0x00, CHR 0x00, CHR 0x00, CHR 0x00, CHR 0x00, CHR 0x00,
                 CHR 0x01, CHR 0x00, CHR 0x00, CHR 0x00, CHR 0x01, CHR 0x00, CHR 0x00, CHR 0x00]"

definition float_one :: string where
  "float_one = [CHR 0x00, CHR 0x00, CHR 0x80, CHR 0x3F]"

definition eight_required_attributes :: string where
  "eight_required_attributes =
     attr_record_head ''channels'' ''chlist'' size_73 @ chlist_payload grba_channels
     @ attr_record_head ''compression'' ''compression'' size_1 @ [CHR 0x00]
     @ attr_record_head ''dataWindow'' ''box2i'' size_16 @ window_2x2
     @ attr_record_head ''displayWindow'' ''box2i'' size_16 @ window_2x2
     @ attr_record_head ''lineOrder'' ''lineOrder'' size_1 @ [CHR 0x00]
     @ attr_record_head ''pixelAspectRatio'' ''float'' size_4 @ float_one
     @ attr_record_head ''screenWindowCenter'' ''v2f'' size_8 @ replicate 8 (CHR 0x00)
     @ attr_record_head ''screenWindowWidth'' ''float'' size_4 @ float_one
     @ [CHR 0x00]"

definition complete_scanline_file :: ACES_INTERNAL_FILE_DATA where
  "complete_scanline_file
   = alloc_file_data_struct (exr_magic @ version_scanline @ eight_required_attributes) 4096"

definition tiled_without_tiles_file :: ACES_INTERNAL_FILE_DATA where
  "tiled_without_tiles_file
   = alloc_file_data_struct (exr_magic @ version_tiled @ eight_required_attributes) 4096"

definition no_attributes_file :: ACES_INTERNAL_FILE_DATA where
  "no_attributes_file = alloc_file_data_struct (exr_magic @ version_scanline @ [CHR 0x00]) 4096"

text \<open>A world with two open handles. The one at address 7 owns a channel array and two
  user attributes, a string and one of a user type, each with its buffer.\<close>

definition owner_attribute :: aces_attribute where
  "owner_attribute =
     \<lparr>type_name = None, type = ACES_ATTR_STRING,
      payload = U_string \<lparr>length_s = 5, str = Some ''hello''\<rparr>\<rparr>"

definition custom_attribute :: aces_attribute where
  "custom_attribute =
     \<lparr>type_name = Some ''myType'', type = ACES_ATTR_USER,
      payload = U_userdata \<lparr>size_u = 2, data_u = Some ''ab''\<rparr>\<rparr>"

definition loaded_handle_world :: world where
  "loaded_handle_world =
     \<lparr>files = (\<lambda>nm. None),
      objs = (\<lambda>p. if p = 7
                   then Some ((alloc_file_data_struct [] 4096)
                     \<lparr>channels := \<lparr>num_channels = 1,
                                   entries = Some [channel_decoded (''R'', half_1x1)]\<rparr>,
                      user_attributes := [(''owner'', owner_attribute),
                                          (''custom'', custom_attribute)],
                      fd := 3\<rparr>)
                   else if p = 8 then Some ((alloc_file_data_struct [] 4096)\<lparr>fd := 4\<rparr>)
                   else None),
      next_ptr = 9, next_fd = 5, mem = 4096, sink = [], released = []\<rparr>"

section \<open>Shared lemmas on names, records and the attribute loop\<close>

lemma sint_range32: "- (2 ^ 31) \<le> sint (w :: 32 word) \<and> sint w < 2 ^ 31"
  using sint_ge [of w] sint_lt [of w] by simp

lemma sint_in_range32:
  "- (2 ^ 31) \<le> k \<Longrightarrow> k < 2 ^ 31 \<Longrightarrow> sint (word_of_int k :: 32 word) = k"
  by (simp add: sint_sbintrunc' signed_take_bit_int_eq_self)

lemma read_string_loop_cstring:
  assumes "user_file f = nm @ CHR 0x00 # rest" "CHR 0x00 \<notin> set nm" "pos + length nm < 32"
  shows "read_string_loop f kind pos acc
         = (int (pos + length nm), acc @ nm,
            f\<lparr>user_file := rest, cur_file_pos := cur_file_pos f + length nm + 1\<rparr>)"
  using assms
proof (induction nm arbitrary: f pos acc)
  case Nil
  then show ?case
    by (subst read_string_loop.simps) (simp add: readfn_def)
next
  case (Cons c nm)
  let ?f2 = "f\<lparr>user_file := nm @ CHR 0x00 # rest, cur_file_pos := cur_file_pos f + 1\<rparr>"
  have step: "read_string_loop f kind pos acc = read_string_loop ?f2 kind (pos + 1) (acc @ [c])"
    using Cons.prems by (subst read_string_loop.simps) (auto simp: readfn_def)
  have "read_string_loop ?f2 kind (pos + 1) (acc @ [c])
        = (int (pos + 1 + length nm), (acc @ [c]) @ nm,
           ?f2\<lparr>user_file := rest, cur_file_pos := cur_file_pos ?f2 + length nm + 1\<rparr>)"
    using Cons.prems by (intro Cons.IH) simp_all
  then show ?case unfolding step by simp
qed

lemma read_string_cstring:
  assumes "user_file f = nm @ CHR 0x00 # rest" "CHR 0x00 \<notin> set nm" "length nm < 32"
  shows "read_string f kind
         = (int (length nm), nm,
            f\<lparr>user_file := rest, cur_file_pos := cur_file_pos f + length nm + 1\<rparr>)"
  using read_string_loop_cstring [of f nm rest 0 kind "[]"] assms
  by (simp add: read_string_def)


lemma read_attribute_record:
  assumes uf: "user_file f = attr_record_head nm tname sz4 @ rest"
    and nm: "nm \<noteq> []" "cstring nm" and tn: "cstring tname" and sz: "length sz4 = 4"
  shows "read_attribute f
         = (let (ret, attr', f5) =
                  read_attribute_payload
                    (f\<lparr>user_file := rest,
                       cur_file_pos := cur_file_pos f + length nm + length tname + 6\<rparr>)
                    nm tname (le32 sz4)
                    \<lparr>type_name = None, type = attr_name_to_type tname, payload = U_zero\<rparr>
            in (ret, nm, attr', f5))"
proof -
  let ?f1 = "f\<lparr>user_file := tname @ CHR 0x00 # sz4 @ rest,
                cur_file_pos := cur_file_pos f + length nm + 1\<rparr>"
  let ?f2 = "?f1\<lparr>user_file := sz4 @ rest, cur_file_pos := cur_file_pos ?f1 + length tname + 1\<rparr>"
  have a: "read_string f ''attribute'' = (int (length nm), nm, ?f1)"
    using uf nm by (intro read_string_cstring) (simp_all add: attr_record_head_def cstring_def)
  have b: "read_string ?f1 ''type'' = (int (length tname), tname, ?f2)"
    using tn by (intro read_string_cstring) (simp_all add: cstring_def)
  have c: "readfn ?f2 4 = (4, sz4, ?f2\<lparr>user_file := rest\<rparr>)"
    using sz by (simp add: readfn_def)
  show ?thesis
    unfolding read_attribute_def Let_def a prod.case b c using nm(1) sz
    by (simp add: ac_simps)
qed

lemma read_attributes_stop:
  "read_attribute f = (rda, nm, a, f') \<Longrightarrow> rda \<noteq> 1 \<Longrightarrow> read_attributes f m = Inr (rda, m, f')"
  by (subst read_attributes.simps) simp

lemma read_attributes_step:
  "read_attribute f = (1, nm, a, f1) \<Longrightarrow> add_attribute f1 nm a = Inr (b, f2)
   \<Longrightarrow> read_attributes f m = read_attributes f2 (m OR b)"
  by (subst read_attributes.simps) simp

lemma loop_reaches_read_attributes:
  "loop_reaches f m f' m' \<Longrightarrow> read_attributes f m = read_attributes f' m'"
  by (induction rule: loop_reaches.induct) (simp_all add: read_attributes_step)

lemma le32_take8: "le32 (take 8 bs) = le32 bs" "le32 (drop 4 (take 8 bs)) = le32 (drop 4 bs)"
  by (simp_all add: le32_def drop_take)

lemma read_header_accepted:
  assumes "header_accepted f"
  shows "read_header f
         = (case read_attributes (header_start f) 0 of
              Inl e \<Rightarrow> Inl e
            | Inr (rda, reqMask, f4) \<Rightarrow>
                if rda < 0 then Inr (rda, f4)
                else (let (numMissing, f5) = report_missing_attributes f4 reqMask
                      in if 0 \<noteq> numMissing then Inr (- 1, f5) else Inr (0, f5)))"
proof -
  have "readfn f 8 = (8, take 8 (user_file f), f\<lparr>user_file := drop 8 (user_file f)\<rparr>)"
    using assms by (simp add: readfn_def header_accepted_def)
  then show ?thesis
    using assms
    by (auto simp: read_header_def header_accepted_def header_start_def le32_take8 Let_def)
qed

lemma read_header_loop_abort:
  assumes "header_accepted f0" and "loop_reaches (header_start f0) 0 f m"
    and "read_attribute f = (rda, nm, a, f')" and "rda < 0"
  shows "read_header f0 = Inr (rda, f')"
proof -
  have "read_attributes (header_start f0) 0 = read_attributes f m"
    by (rule loop_reaches_read_attributes [OF assms(2)])
  also have "\<dots> = Inr (rda, m, f')"
    using assms(3,4) by (intro read_attributes_stop) simp_all
  finally show ?thesis
    using assms(4) by (simp add: read_header_accepted [OF assms(1)])
qed

lemma size_t_of_int32_eq:
  assumes "n < 2 ^ 31"
  shows "size_t_of_int32 g = n \<longleftrightarrow> sint g = int n"
proof (cases "0 \<le> sint g")
  case True
  have "sint g < 2 ^ 64" using sint_range32 [of g] by simp
  then have "sint g mod 2 ^ 64 = sint g" using True by simp
  then show ?thesis using True by (auto simp: size_t_of_int32_def)
next
  case False
  have "- (2 ^ 31) \<le> sint g" using sint_range32 [of g] by simp
  have "(sint g + 2 ^ 64) mod 2 ^ 64 = sint g + 2 ^ 64"
    using False \<open>- (2 ^ 31) \<le> sint g\<close> by (intro mod_pos_pos_trivial) simp_all
  moreover have "(sint g + 2 ^ 64) mod 2 ^ 64 = sint g mod (2 ^ 64 :: int)"
    by (rule mod_add_self2)
  ultimately have "sint g mod 2 ^ 64 = sint g + 2 ^ 64"
    by (simp only:)
  then have "size_t_of_int32 g = nat (sint g + 2 ^ 64)" by (simp add: size_t_of_int32_def)
  moreover have "int n < sint g + 2 ^ 64" using assms \<open>- (2 ^ 31) \<le> sint g\<close> by simp
  ultimately show ?thesis using False by auto
qed

lemma native_size_small: "native_size t = Some n \<Longrightarrow> n < 2 ^ 31"
  by (cases t) auto

lemma attr_name_to_type_empty: "attr_name_to_type [] = ACES_ATTR_UNKNOWN"
  by (simp add: attr_name_to_type_def)

lemma le32_magic: "le32 (exr_magic @ bs) = 20000630"
  by (simp add: le32_def le_nat_def exr_magic_def)

lemma le32_version_scanline: "le32 (version_scanline @ bs) = 2"
  by (simp add: le32_def le_nat_def version_scanline_def)

lemma header_accepted_scanline:
  "user_file f = exr_magic @ version_scanline @ bs \<Longrightarrow> header_accepted f"
  using le32_version_scanline [of bs]
  by (simp add: header_accepted_def le32_magic) (simp add: exr_magic_def version_scanline_def)

lemma header_start_scanline:
  "user_file f = exr_magic @ version_scanline @ bs
   \<Longrightarrow> header_start f = f\<lparr>user_file := bs, cur_file_pos := cur_file_pos f + 8,
                            storage_mode := ACES_STORAGE_SCANLINE\<rparr>"
  using le32_version_scanline [of bs]
  by (simp add: header_start_def) (simp add: exr_magic_def version_scanline_def)

lemma attr_name_to_type_box2i: "attr_name_to_type ''box2i'' = ACES_ATTR_BOX2I"
  by (simp add: attr_name_to_type_def the_predefined_attr_typenames_def attribute_type_values_def)

lemma attr_name_to_type_compression: "attr_name_to_type ''compression'' = ACES_ATTR_COMPRESSION"
  by (simp add: attr_name_to_type_def the_predefined_attr_typenames_def attribute_type_values_def)

lemma size_t_of_int32_nonneg: "0 \<le> sint sz \<Longrightarrow> size_t_of_int32 sz = nat (sint sz)"
  using size_t_of_int32_eq [of "nat (sint sz)" sz] sint_range32 [of sz] by simp

lemma size_t_of_int32_neg: "sint sz < 0 \<Longrightarrow> size_t_of_int32 sz = nat (sint sz + 2 ^ 64)"
proof -
  assume neg: "sint sz < 0"
  have lo: "- (2 ^ 31) \<le> sint sz" using sint_range32 [of sz] by simp
  have "(sint sz + 2 ^ 64) mod 2 ^ 64 = sint sz + 2 ^ 64"
    using neg lo by (intro mod_pos_pos_trivial) simp_all
  moreover have "(sint sz + 2 ^ 64) mod 2 ^ 64 = sint sz mod (2 ^ 64 :: int)"
    by (rule mod_add_self2)
  ultimately show ?thesis by (simp only: size_t_of_int32_def)
qed

section \<open>The storage mode is set once\<close>

text \<open>Nothing after the version check of \<open>read_header\<close> assigns \<open>storage_mode\<close>.\<close>

lemma readfn_storage_mode [simp]: "storage_mode (snd (snd (readfn f n))) = storage_mode f"
  by (simp add: readfn_def)

lemma print_error_storage_mode [simp]: "storage_mode (print_error f m) = storage_mode f"
  by (simp add: print_error_def)

lemma read_string_loop_storage_mode:
  "storage_mode (snd (snd (read_string_loop f kind pos attrname))) = storage_mode f"
proof (induction f kind pos attrname rule: read_string_loop.induct)
  case (1 f kind pos attrname)
  show ?case
  proof (cases "pos < 32 \<and> fst (readfn f 1) = 1 \<and> fst (snd (readfn f 1)) \<noteq> [CHR 0x00]")
    case True
    then have "storage_mode (snd (snd (read_string_loop
                 ((snd (snd (readfn f 1)))\<lparr>cur_file_pos := cur_file_pos (snd (snd (readfn f 1))) + 1\<rparr>)
                 kind (pos + 1) (attrname @ fst (snd (readfn f 1))))))
               = storage_mode ((snd (snd (readfn f 1)))
                     \<lparr>cur_file_pos := cur_file_pos (snd (snd (readfn f 1))) + 1\<rparr>)"
      by (intro "1.IH" [of "readfn f 1" "fst (readfn f 1)" "snd (readfn f 1)"
            "fst (snd (readfn f 1))" "snd (snd (readfn f 1))"]) (simp_all add: prod_eq_iff)
    with True show ?thesis
      by (subst read_string_loop.simps) (simp add: split_beta Let_def)
  next
    case False
    then show ?thesis
      by (subst read_string_loop.simps) (auto simp: split_beta Let_def)
  qed
qed

lemma read_string_storage_mode:
  "read_string f kind = (r, nm, f') \<Longrightarrow> storage_mode f' = storage_mode f"
  using read_string_loop_storage_mode [of f kind 0 "[]"] by (simp add: read_string_def)

lemma attr_check_size_and_read_storage_mode:
  "attr_check_size_and_read f given n tname = (r, d, f') \<Longrightarrow> storage_mode f' = storage_mode f"
  by (auto simp: attr_check_size_and_read_def readfn_def print_error_def Let_def
      split: if_splits)

lemma attr_read_string_storage_mode:
  "attr_read_string f sz = (r, d, f') \<Longrightarrow> storage_mode f' = storage_mode f"
  by (auto simp: attr_read_string_def readfn_def print_error_def Let_def split: if_splits)

lemma attr_read_userdata_storage_mode:
  "attr_read_userdata f sz = (r, d, f') \<Longrightarrow> storage_mode f' = storage_mode f"
  by (auto simp: attr_read_userdata_def readfn_def print_error_def Let_def split: if_splits)

lemma attr_read_preview_storage_mode:
  "attr_read_preview f sz = (r, d, f') \<Longrightarrow> storage_mode f' = storage_mode f"
  by (auto simp: attr_read_preview_def readfn_def print_error_def Let_def split: if_splits)

lemma chlist_loop_storage_mode:
  "storage_mode (snd (snd (snd (chlist_loop f cl num)))) = storage_mode f"
proof (induction "length (user_file f)" arbitrary: f cl num rule: less_induct)
  case less
  obtain rs chstr f0 where rs: "read_string f ''channel'' = (rs, chstr, f0)"
    by (cases "read_string f ''channel''") auto
  obtain r1 b1 f1 where r1: "attr_check_size_and_read f0 4 4 ''channel pixel type'' = (r1, b1, f1)"
    by (cases "attr_check_size_and_read f0 4 4 ''channel pixel type''") auto
  obtain r2 b2 f2 where r2: "attr_check_size_and_read f1 1 1 ''channel linear flag'' = (r2, b2, f2)"
    by (cases "attr_check_size_and_read f1 1 1 ''channel linear flag''") auto
  obtain r3 b3 f3 where r3: "attr_check_size_and_read f2 3 3 ''channel padding'' = (r3, b3, f3)"
    by (cases "attr_check_size_and_read f2 3 3 ''channel padding''") auto
  obtain r4 b4 f4 where r4: "attr_check_size_and_read f3 4 4 ''channel x sampling'' = (r4, b4, f4)"
    by (cases "attr_check_size_and_read f3 4 4 ''channel x sampling''") auto
  obtain r5 b5 f5 where r5: "attr_check_size_and_read f4 4 4 ''channel y sampling'' = (r5, b5, f5)"
    by (cases "attr_check_size_and_read f4 4 4 ''channel y sampling''") auto
  note sm = read_string_storage_mode [OF rs] attr_check_size_and_read_storage_mode [OF r1]
    attr_check_size_and_read_storage_mode [OF r2] attr_check_size_and_read_storage_mode [OF r3]
    attr_check_size_and_read_storage_mode [OF r4] attr_check_size_and_read_storage_mode [OF r5]
  note len = read_string_length [OF rs] attr_check_size_and_read_length [OF r1]
    attr_check_size_and_read_length [OF r2] attr_check_size_and_read_length [OF r3]
    attr_check_size_and_read_length [OF r4] attr_check_size_and_read_length [OF r5]
  show ?case
  proof (cases "rs \<noteq> 0 \<and> malloc_ok f0 sizeof_tmp_ch_list \<and> \<not> r1 < 0 \<and> \<not> r2 < 0 \<and> \<not> r3 < 0
                 \<and> \<not> r4 < 0 \<and> \<not> r5 < 0")
    case True
    then have "length (user_file f1) + 4 = length (user_file f0)"
      using attr_check_size_and_read_consumes [OF r1] by simp
    then have lt: "length (user_file f5) < length (user_file f)" using len by simp
    have "storage_mode (snd (snd (snd (chlist_loop f5
            (insert_channel
               \<lparr>name = chstr, pixel_type = le32 b1, p_linear = le8 b2,
                reserved = b3, x_sampling = le32 b4, y_sampling = le32 b5\<rparr> cl)
            (num + 1))))) = storage_mode f5"
      by (rule less [OF lt])
    with True sm show ?thesis
      by (subst chlist_loop.simps) (simp add: rs r1 r2 r3 r4 r5 del: One_nat_def)
  next
    case False
    then show ?thesis using sm
      by (subst chlist_loop.simps) (auto simp: rs r1 r2 r3 r4 r5 simp del: One_nat_def)
  qed
qed

lemma attr_read_chlist_storage_mode:
  "attr_read_chlist f sz = (r, d, f') \<Longrightarrow> storage_mode f' = storage_mode f"
  using chlist_loop_storage_mode [of f "[]" 0]
  by (auto simp: attr_read_chlist_def Let_def split_beta split: if_splits)

lemma read_attribute_payload_storage_mode:
  "read_attribute_payload f attrname tname asize attr = (r, a, f')
   \<Longrightarrow> storage_mode f' = storage_mode f"
  by (auto simp: read_attribute_payload_def Let_def
      split: option.splits if_splits prod.splits
      dest: attr_check_size_and_read_storage_mode attr_read_string_storage_mode
        attr_read_userdata_storage_mode attr_read_preview_storage_mode
        attr_read_chlist_storage_mode)

lemma read_attribute_storage_mode:
  assumes "read_attribute f = (rda, attrname, attr, f')"
  shows "storage_mode f' = storage_mode f"
proof -
  obtain pos nm f1 where a: "read_string f ''attribute'' = (pos, nm, f1)"
    by (cases "read_string f ''attribute''") auto
  obtain pos2 tname f2 where b: "read_string f1 ''type'' = (pos2, tname, f2)"
    by (cases "read_string f1 ''type''") auto
  let ?f4 = "(snd (snd (readfn f2 4)))\<lparr>cur_file_pos := cur_file_pos (snd (snd (readfn f2 4)))
               + nat (fst (readfn f2 4))\<rparr>"
  obtain ret attr' f5 where c:
    "read_attribute_payload ?f4 nm tname (le32 (fst (snd (readfn f2 4))))
       (\<lparr>type_name = None, type = ACES_ATTR_UNKNOWN, payload = U_zero\<rparr>
          \<lparr>type := attr_name_to_type tname\<rparr>) = (ret, attr', f5)"
    by (metis prod_cases3)
  note sm = read_string_storage_mode [OF a] read_string_storage_mode [OF b]
    read_attribute_payload_storage_mode [OF c]
  show ?thesis
    using assms a b c sm
    by (auto simp: read_attribute_def Let_def split_beta split: if_splits)
qed

lemma add_attribute_storage_mode:
  "add_attribute f attrname attr = Inr (m, f') \<Longrightarrow> storage_mode f' = storage_mode f"
  by (auto simp: add_attribute_def split: if_splits)

lemma read_attributes_storage_mode:
  "read_attributes f m = Inr (rda, m', f') \<Longrightarrow> storage_mode f' = storage_mode f"
proof (induction "length (user_file f)" arbitrary: f m rule: less_induct)
  case less
  obtain r nm a f1 where ra: "read_attribute f = (r, nm, a, f1)"
    by (metis prod_cases4)
  note sm1 = read_attribute_storage_mode [OF ra]
  show ?case
  proof (cases "r = 1")
    case False
    then show ?thesis using less.prems sm1
      by (subst (asm) read_attributes.simps) (simp add: ra)
  next
    case True
    show ?thesis
    proof (cases "add_attribute f1 nm a")
      case (Inl e)
      then show ?thesis using less.prems True
        by (subst (asm) read_attributes.simps) (simp add: ra)
    next
      case (Inr mf)
      obtain b f2 where mf: "mf = (b, f2)" by (cases mf)
      have aa: "add_attribute f1 nm a = Inr (b, f2)" using Inr mf by simp
      have eq: "read_attributes f m = read_attributes f2 (m OR b)"
        using ra True aa by (intro read_attributes_step) simp_all
      have "length (user_file f2) < length (user_file f)"
        using read_attribute_consumes [OF ra True] add_attribute_user_file [OF aa] by simp
      then have "storage_mode f' = storage_mode f2"
        using less.prems unfolding eq by (intro less.hyps) simp_all
      then show ?thesis
        using add_attribute_storage_mode [OF aa] sm1 by simp
    qed
  qed
qed

lemma check_attr_mask_storage_mode [simp]:
  "storage_mode (snd (check_attr_mask f v msk nm)) = storage_mode f"
  by (simp add: check_attr_mask_def)

lemma report_missing_attributes_storage_mode:
  "storage_mode (snd (report_missing_attributes f m)) = storage_mode f"
  by (simp add: report_missing_attributes_def split_beta Let_def)

section \<open>Shared lemmas on the header and on opening\<close>

lemma read_header_exit:
  "header_accepted f \<Longrightarrow> read_header f = header_exit (read_attributes (header_start f) 0)"
  by (simp add: read_header_accepted header_exit_def)

lemma header_exit_storage_mode:
  "header_exit r = Inr (rc, f') \<Longrightarrow> \<exists>rda m f4. r = Inr (rda, m, f4) \<and> storage_mode f' = storage_mode f4"
  using report_missing_attributes_storage_mode
  by (auto simp: header_exit_def Let_def split_beta split: sum.splits if_splits)

lemma read_header_storage_mode:
  assumes "header_accepted f" "read_header f = Inr (rc, f')"
  shows "storage_mode f' = storage_mode (header_start f)"
proof -
  obtain rda m f4 where r: "read_attributes (header_start f) 0 = Inr (rda, m, f4)"
    and s: "storage_mode f' = storage_mode f4"
    using header_exit_storage_mode assms by (metis read_header_exit)
  show ?thesis using read_attributes_storage_mode [OF r] s by simp
qed

lemma start_read_header_fails:
  assumes "can_open w fn contents"
    and "read_header (opened_file w fn contents) = Inr (rc, ret')" and "rc < 0"
  shows "\<exists>w'. aces_start_read w fn = Inr (None, w') \<and> sink w' = sink w @ errors ret' \<and>
              objs w' (next_ptr w) = None \<and> FreedFileData (next_ptr w) \<in> set (released w')"
  using assms
  by (simp add: aces_start_read_def aces_close_def Let_def can_open_def opened_file_def)

lemma start_read_header_succeeds:
  assumes "can_open w fn contents"
    and "read_header (opened_file w fn contents) = Inr (rc, ret')" and "\<not> rc < 0"
  shows "\<exists>w'. aces_start_read w fn = Inr (Some (next_ptr w), w') \<and>
              objs w' (next_ptr w) = Some ret'"
  using assms
  by (simp add: aces_start_read_def Let_def can_open_def opened_file_def)

lemma start_read_returns_handle:
  assumes "can_open w fn contents" and "aces_start_read w fn = Inr (Some p, w')"
  shows "\<exists>rc ret'. read_header (opened_file w fn contents) = Inr (rc, ret') \<and> \<not> rc < 0 \<and>
                   objs w' p = Some ret'"
proof -
  obtain rc ret' where rh: "read_header (opened_file w fn contents) = Inr (rc, ret')"
    using assms
    by (auto simp: aces_start_read_def Let_def can_open_def opened_file_def split: sum.splits)
  have nn: "\<not> rc < 0"
    using assms rh start_read_header_fails [OF assms(1) rh] by auto
  show ?thesis
    using start_read_header_succeeds [OF assms(1) rh nn] assms(2) rh nn by auto
qed

lemma header_exit_Inr: "\<exists>rc f'. header_exit (Inr x) = Inr (rc, f')"
  by (cases x) (auto simp: header_exit_def Let_def split_beta)

lemma read_attribute_sentinel:
  assumes "user_file f = CHR 0x00 # rest"
  shows "read_attribute f
         = (0, [], \<lparr>type_name = None, type = ACES_ATTR_UNKNOWN, payload = U_zero\<rparr>,
            f\<lparr>user_file := rest, cur_file_pos := cur_file_pos f + 1\<rparr>)"
  using read_string_cstring [of f "[]" rest "''attribute''"] assms
  by (simp add: read_attribute_def)

lemma le32_version_tiled: "le32 (version_tiled @ bs) = 0x202"
  by (simp add: le32_def le_nat_def version_tiled_def)

lemma le32_version_3: "le32 (version_3 @ bs) = 3"
  by (simp add: le32_def le_nat_def version_3_def)

lemma drop4_magic: "drop 4 (exr_magic @ bs) = bs" "drop 8 (exr_magic @ version_scanline @ bs) = bs"
  "drop 8 (exr_magic @ version_tiled @ bs) = bs" "drop 8 (exr_magic @ version_3 @ bs) = bs"
  "length (exr_magic @ version_scanline @ bs) = 8 + length bs"
  "length (exr_magic @ version_tiled @ bs) = 8 + length bs"
  "length (exr_magic @ version_3 @ bs) = 8 + length bs"
  by (simp_all add: exr_magic_def version_scanline_def version_tiled_def version_3_def)

section \<open>Block geometry: claim C1\<close>

lemma ceil_div_idiom:
  fixes n l :: int
  assumes "0 \<le> n" "0 < l"
  shows "(n + l - 1) sdiv l = \<lceil>real_of_int n / real_of_int l\<rceil>"
proof -
  define q where "q = n div l"
  define r where "r = n mod l"
  have n: "n = l * q + r" and r: "0 \<le> r" "r < l"
    using assms by (simp_all add: q_def r_def)
  have a: "(n + l - 1) sdiv l = (n + l - 1) div l"
    using assms by (auto simp: signed_divide_int_def sgn_if)
  have b: "(n + l - 1) div l = q + (r + l - 1) div l"
  proof -
    have e: "n + l - 1 = (r + l - 1) + q * l" using n by (simp add: algebra_simps)
    have "((r + l - 1) + q * l) div l = q + (r + l - 1) div l"
      using assms(2) div_mult_self1 [of l "r + l - 1" q] by simp
    then show ?thesis by (simp only: e)
  qed
  have c: "(r + l - 1) div l = (if r = 0 then 0 else 1)"
  proof (cases "r = 0")
    case True
    then show ?thesis using assms by (simp add: div_pos_pos_trivial)
  next
    case False
    then have "r + l - 1 = (r - 1) + 1 * l" "0 \<le> r - 1" "r - 1 < l" using r by simp_all
    then have "(r + l - 1) div l = (r - 1) div l + 1"
      by (metis assms(2) div_mult_self1 less_irrefl add.commute)
    then show ?thesis using False r by (simp add: div_pos_pos_trivial)
  qed
  have d: "(- n) div l = (if r = 0 then - q else - q - 1)"
    using assms by (simp add: zdiv_zminus1_eq_if q_def r_def)
  show ?thesis
    unfolding ceiling_divide_eq_div a b c d by simp
qed

lemma sint_sub_no_wrap:
  fixes a b :: "32 word"
  assumes "- (2 ^ 31) \<le> sint a - sint b" "sint a - sint b < 2 ^ 31"
  shows "sint (a - b) = sint a - sint b"
  using assms by (simp add: sint_word_ariths signed_take_bit_int_eq_self)

lemma sint_add_no_wrap:
  fixes a b :: "32 word"
  assumes "- (2 ^ 31) \<le> sint a + sint b" "sint a + sint b < 2 ^ 31"
  shows "sint (a + b) = sint a + sint b"
  using assms by (simp add: sint_word_ariths signed_take_bit_int_eq_self)

lemma n_blocks_no_wrap:
  fixes ymax ymin lp :: "32 word"
  assumes lp: "0 < sint lp"
    and h: "sint ymin \<le> sint ymax"
    and nov: "sint ymax - sint ymin + sint lp < 2 ^ 31"
  shows "sint (c_div ((ymax - ymin) + lp - 1) lp)
         = \<lceil>real_of_int (sint ymax - sint ymin) / real_of_int (sint lp)\<rceil>"
proof -
  let ?h = "sint ymax - sint ymin"
  have 1: "sint (ymax - ymin) = ?h"
    using h nov lp by (intro sint_sub_no_wrap) simp_all
  have 2: "sint ((ymax - ymin) + lp) = ?h + sint lp"
    using h nov lp 1 by (simp add: sint_add_no_wrap)
  have 3: "sint ((ymax - ymin) + lp - 1) = ?h + sint lp - 1"
    using h nov lp 2 by (simp add: sint_sub_no_wrap)
  have q: "(?h + sint lp - 1) sdiv sint lp = \<lceil>real_of_int ?h / real_of_int (sint lp)\<rceil>"
    using h lp by (intro ceil_div_idiom) simp_all
  have "\<bar>(?h + sint lp - 1) sdiv sint lp\<bar> \<le> \<bar>?h + sint lp - 1\<bar>"
    using sdiv_int_range [of "?h + sint lp - 1" "sint lp"] by auto
  then have r: "- (2 ^ 31) \<le> (?h + sint lp - 1) sdiv sint lp"
    "(?h + sint lp - 1) sdiv sint lp < 2 ^ 31"
    using h nov lp by linarith+
  show ?thesis
    unfolding c_div_def 3 using r q by (simp add: sint_in_range32)
qed

lemma n_blocks_truncates:
  fixes ymax ymin lp :: "32 word"
  assumes lp: "0 < sint lp"
    and lo: "- (2 ^ 31) \<le> sint ymax - sint ymin"
    and nov: "sint ymax - sint ymin + sint lp < 2 ^ 31"
  shows "sint (c_div ((ymax - ymin) + lp - 1) lp)
         = (sint ymax - sint ymin + sint lp - 1) sdiv sint lp"
proof -
  let ?h = "sint ymax - sint ymin"
  have 1: "sint (ymax - ymin) = ?h"
    using lo nov lp by (intro sint_sub_no_wrap) simp_all
  have 2: "sint ((ymax - ymin) + lp) = ?h + sint lp"
    using lo nov lp 1 by (simp add: sint_add_no_wrap)
  have 3: "sint ((ymax - ymin) + lp - 1) = ?h + sint lp - 1"
    using lo nov lp 2 by (simp add: sint_sub_no_wrap)
  have b: "(0 \<le> x \<longrightarrow> 0 \<le> x sdiv sint lp \<and> x sdiv sint lp \<le> x) \<and>
           (x < 0 \<longrightarrow> x \<le> x sdiv sint lp \<and> x sdiv sint lp \<le> 0)" for x :: int
  proof -
    have "0 \<le> a div sint lp \<and> a div sint lp \<le> a" if "0 \<le> a" for a :: int
      using that lp zdiv_mono2 [of a 1 "sint lp"] by (simp add: pos_imp_zdiv_nonneg_iff)
    from this [of x] this [of "- x"] show ?thesis
      using lp by (auto simp: signed_divide_int_def sgn_if)
  qed
  have r: "- (2 ^ 31) \<le> (?h + sint lp - 1) sdiv sint lp"
    "(?h + sint lp - 1) sdiv sint lp < 2 ^ 31"
    using b [of "?h + sint lp - 1"] lo nov lp by linarith+
  show ?thesis
    unfolding c_div_def 3 using r by (simp add: sint_in_range32)
qed

text \<open>
  Claim C1, as the code has it. \<open>compute_scanline_block_info\<close> sets the lines per block
  to 1 for the compressions none, rle and zips, to 16 for zip and to 32 for piz. For every
  header the block count is the C expression \<open>(n_lines + lines_per - 1) / lines_per\<close> on
  \<open>int\<close>, with \<open>n_lines = y_max - y_min\<close> of the data window (no \<open>+ 1\<close>), and 0 when
  the lines per block are not positive. Where the difference and the sum do not overflow
  32 bits this is the quotient of \<open>y_max - y_min + lines_per - 1\<close> by \<open>lines_per\<close>
  truncated towards zero, for a negative height too; for \<open>y_min \<le> y_max\<close> it is the
  ceiling of \<open>(y_max - y_min) / lines_per\<close>. For zip and \<open>y_max - y_min = 100\<close> the count
  is 7.
\<close>

theorem scanline_block_info_geometry:
  "(compression f \<in> {0, 1, 2} \<longrightarrow> fst (compute_scanline_block_info f) = 1) \<and>
   (compression f = 3 \<longrightarrow> fst (compute_scanline_block_info f) = 16) \<and>
   (compression f = 4 \<longrightarrow> fst (compute_scanline_block_info f) = 32) \<and>
   fst (snd (compute_scanline_block_info f))
     = (if 0 < sint (fst (compute_scanline_block_info f))
        then c_div (y_max (data_window f) - y_min (data_window f)
                    + fst (compute_scanline_block_info f) - 1)
               (fst (compute_scanline_block_info f))
        else 0) \<and>
   (compression f \<in> {0, 1, 2, 3, 4} \<and>
    - (2 ^ 31) \<le> sint (y_max (data_window f)) - sint (y_min (data_window f)) \<and>
    sint (y_max (data_window f)) - sint (y_min (data_window f))
      + sint (fst (compute_scanline_block_info f)) < 2 ^ 31
    \<longrightarrow> sint (fst (snd (compute_scanline_block_info f)))
        = (sint (y_max (data_window f)) - sint (y_min (data_window f))
           + sint (fst (compute_scanline_block_info f)) - 1)
          sdiv sint (fst (compute_scanline_block_info f))) \<and>
   (compression f \<in> {0, 1, 2, 3, 4} \<and>
    sint (y_min (data_window f)) \<le> sint (y_max (data_window f)) \<and>
    sint (y_max (data_window f)) - sint (y_min (data_window f))
      + sint (fst (compute_scanline_block_info f)) < 2 ^ 31
    \<longrightarrow> sint (fst (snd (compute_scanline_block_info f)))
        = \<lceil>real_of_int (sint (y_max (data_window f)) - sint (y_min (data_window f)))
            / real_of_int (sint (fst (compute_scanline_block_info f)))\<rceil>) \<and>
   (compression f = 3 \<and>
    sint (y_max (data_window f)) - sint (y_min (data_window f)) = 100
    \<longrightarrow> fst (snd (compute_scanline_block_info f)) = 7)"
proof (intro conjI impI)
  assume "compression f \<in> {0, 1, 2}"
  then show "fst (compute_scanline_block_info f) = 1"
    by (auto simp: compute_scanline_block_info_def lines_per_block_def Let_def)
next
  assume "compression f = 3"
  then show "fst (compute_scanline_block_info f) = 16"
    by (simp add: compute_scanline_block_info_def lines_per_block_def Let_def)
next
  assume "compression f = 4"
  then show "fst (compute_scanline_block_info f) = 32"
    by (simp add: compute_scanline_block_info_def lines_per_block_def Let_def)
next
  show "fst (snd (compute_scanline_block_info f))
     = (if 0 < sint (fst (compute_scanline_block_info f))
        then c_div (y_max (data_window f) - y_min (data_window f)
                    + fst (compute_scanline_block_info f) - 1)
               (fst (compute_scanline_block_info f))
        else 0)"
    by (simp add: compute_scanline_block_info_def Let_def split_beta)
next
  let ?lp = "fst (compute_scanline_block_info f)"
  let ?ymax = "y_max (data_window f)" and ?ymin = "y_min (data_window f)"
  assume a: "compression f \<in> {0, 1, 2, 3, 4} \<and> - (2 ^ 31) \<le> sint ?ymax - sint ?ymin \<and>
    sint ?ymax - sint ?ymin + sint ?lp < 2 ^ 31"
  then have lp: "?lp = fst (lines_per_block f)" "0 < sint ?lp"
    by (auto simp: compute_scanline_block_info_def lines_per_block_def Let_def)
  have nb: "fst (snd (compute_scanline_block_info f)) = c_div ((?ymax - ?ymin) + ?lp - 1) ?lp"
    using lp by (simp add: compute_scanline_block_info_def Let_def split_beta)
  show "sint (fst (snd (compute_scanline_block_info f)))
        = (sint ?ymax - sint ?ymin + sint ?lp - 1) sdiv sint ?lp"
    unfolding nb using a lp(2) by (intro n_blocks_truncates) simp_all
next
  let ?lp = "fst (compute_scanline_block_info f)"
  let ?ymax = "y_max (data_window f)" and ?ymin = "y_min (data_window f)"
  assume a: "compression f \<in> {0, 1, 2, 3, 4} \<and> sint ?ymin \<le> sint ?ymax \<and>
    sint ?ymax - sint ?ymin + sint ?lp < 2 ^ 31"
  then have lp: "?lp = fst (lines_per_block f)" "0 < sint ?lp"
    by (auto simp: compute_scanline_block_info_def lines_per_block_def Let_def)
  have nb: "fst (snd (compute_scanline_block_info f)) = c_div ((?ymax - ?ymin) + ?lp - 1) ?lp"
    using lp by (simp add: compute_scanline_block_info_def Let_def split_beta)
  show "sint (fst (snd (compute_scanline_block_info f)))
        = \<lceil>real_of_int (sint ?ymax - sint ?ymin) / real_of_int (sint ?lp)\<rceil>"
    unfolding nb using a lp(2) by (intro n_blocks_no_wrap) simp_all
next
  let ?ymax = "y_max (data_window f)" and ?ymin = "y_min (data_window f)"
  assume a: "compression f = 3 \<and> sint ?ymax - sint ?ymin = 100"
  then have lp: "fst (compute_scanline_block_info f) = 16"
    by (simp add: compute_scanline_block_info_def lines_per_block_def Let_def)
  have nb: "fst (snd (compute_scanline_block_info f)) = c_div ((?ymax - ?ymin) + 16 - 1) 16"
    using a by (simp add: compute_scanline_block_info_def lines_per_block_def Let_def)
  have "sint (c_div ((?ymax - ?ymin) + 16 - 1) (16 :: 32 word))
        = \<lceil>real_of_int (sint ?ymax - sint ?ymin) / real_of_int (sint (16 :: 32 word))\<rceil>"
    using a by (intro n_blocks_no_wrap) simp_all
  also have "\<dots> = 7" using a by simp
  finally have "sint (fst (snd (compute_scanline_block_info f))) = sint (7 :: 32 word)"
    using nb by simp
  then show "fst (snd (compute_scanline_block_info f)) = 7"
    by (simp only: signed_word_eqI)
qed

text \<open>
  Claim C1 as stated, for every parsed header, fails where the data window is inverted
  (the reader does not check \<open>y_min \<le> y_max\<close>). With zip, \<open>y_min = 20\<close> and \<open>y_max = 0\<close>
  the C division truncates \<open>-5 / 16\<close> to 0 blocks, and the ceiling of \<open>-20 / 16\<close> is \<open>-1\<close>.
\<close>

theorem scanline_block_count_not_ceiling_counterexample:
  "compression inverted_window_file = 3 \<and>
   fst (compute_scanline_block_info inverted_window_file) = 16 \<and>
   sint (fst (snd (compute_scanline_block_info inverted_window_file))) = 0 \<and>
   \<lceil>real_of_int (sint (y_max (data_window inverted_window_file))
                   - sint (y_min (data_window inverted_window_file)))
     / real_of_int (sint (fst (compute_scanline_block_info inverted_window_file)))\<rceil> = - 1"
  by (simp add: inverted_window_file_def alloc_file_data_struct_def
      compute_scanline_block_info_def lines_per_block_def c_div_def signed_divide_int_def)

text \<open>The theorem of C1 at a zip header whose data window has \<open>y_max - y_min = 100\<close>,
  and at a zip header whose data window is inverted by 100 lines: \<open>-85 / 16\<close> is \<open>-5\<close>.\<close>

theorem scanline_block_info_geometry_witness:
  "compression zip_100_file = 3 \<and>
   fst (compute_scanline_block_info zip_100_file) = 16 \<and>
   fst (snd (compute_scanline_block_info zip_100_file)) = 7 \<and>
   sint (fst (snd (compute_scanline_block_info zip_100_file))) = \<lceil>(100 :: real) / 16\<rceil> \<and>
   compression inverted_100_file = 3 \<and>
   sint (y_max (data_window inverted_100_file)) - sint (y_min (data_window inverted_100_file))
     = - 100 \<and>
   fst (compute_scanline_block_info inverted_100_file) = 16 \<and>
   sint (fst (snd (compute_scanline_block_info inverted_100_file))) = - 5"
proof -
  note g = scanline_block_info_geometry [of zip_100_file]
  have c: "compression zip_100_file = 3"
    and w: "sint (y_max (data_window zip_100_file)) - sint (y_min (data_window zip_100_file)) = 100"
    by (simp_all add: zip_100_file_def alloc_file_data_struct_def)
  have lp: "fst (compute_scanline_block_info zip_100_file) = 16"
    using g c by blast
  have nb: "fst (snd (compute_scanline_block_info zip_100_file)) = 7"
    using g c w by blast
  have "compression zip_100_file \<in> {0, 1, 2, 3, 4} \<and>
    sint (y_min (data_window zip_100_file)) \<le> sint (y_max (data_window zip_100_file)) \<and>
    sint (y_max (data_window zip_100_file)) - sint (y_min (data_window zip_100_file))
      + sint (fst (compute_scanline_block_info zip_100_file)) < 2 ^ 31"
    using w by (simp add: c lp)
  then have "sint (fst (snd (compute_scanline_block_info zip_100_file)))
        = \<lceil>real_of_int (sint (y_max (data_window zip_100_file))
                         - sint (y_min (data_window zip_100_file)))
            / real_of_int (sint (fst (compute_scanline_block_info zip_100_file)))\<rceil>"
    using g by blast
  then have ce: "sint (fst (snd (compute_scanline_block_info zip_100_file)))
                 = \<lceil>(100 :: real) / 16\<rceil>"
    by (simp add: w lp)
  note g' = scanline_block_info_geometry [of inverted_100_file]
  have c': "compression inverted_100_file = 3"
    and w': "sint (y_max (data_window inverted_100_file))
             - sint (y_min (data_window inverted_100_file)) = - 100"
    by (simp_all add: inverted_100_file_def alloc_file_data_struct_def)
  have lp': "fst (compute_scanline_block_info inverted_100_file) = 16"
    using g' c' by blast
  have "compression inverted_100_file \<in> {0, 1, 2, 3, 4} \<and>
    - (2 ^ 31) \<le> sint (y_max (data_window inverted_100_file))
                   - sint (y_min (data_window inverted_100_file)) \<and>
    sint (y_max (data_window inverted_100_file)) - sint (y_min (data_window inverted_100_file))
      + sint (fst (compute_scanline_block_info inverted_100_file)) < 2 ^ 31"
    by (simp add: c' lp' w')
  then have "sint (fst (snd (compute_scanline_block_info inverted_100_file)))
        = (sint (y_max (data_window inverted_100_file))
           - sint (y_min (data_window inverted_100_file))
           + sint (fst (compute_scanline_block_info inverted_100_file)) - 1)
          sdiv sint (fst (compute_scanline_block_info inverted_100_file))"
    using g' by blast
  then have nb': "sint (fst (snd (compute_scanline_block_info inverted_100_file))) = - 5"
    by (simp add: w' lp' signed_divide_int_def)
  show ?thesis using c lp nb ce c' w' lp' nb' by simp
qed

section \<open>The channel list is sorted: claim C3\<close>

lemma of_char_pos: "c \<noteq> CHR 0x00 \<Longrightarrow> 0 < (of_char c :: nat)"
proof -
  assume "c \<noteq> CHR 0x00"
  then have "(of_char c :: nat) \<noteq> of_char (CHR 0x00)" by (simp only: of_char_eq_iff not_False_eq_True)
  then show ?thesis by simp
qed

lemma strcmp_less_iff:
  "CHR 0x00 \<notin> set a \<Longrightarrow> CHR 0x00 \<notin> set b \<Longrightarrow> strcmp a b < 0 \<longleftrightarrow> a < b"
proof (induction a b rule: strcmp.induct)
  case 1
  show ?case by simp
next
  case (2 y ys)
  then show ?case using of_char_pos [of y] by auto
next
  case (3 x xs)
  then show ?case by simp
next
  case (4 x xs y ys)
  then show ?case by (auto simp: less_char_def)
qed

lemma strcmp_le_iff:
  assumes "CHR 0x00 \<notin> set a" "CHR 0x00 \<notin> set b"
  shows "\<not> strcmp a b < 0 \<longleftrightarrow> b \<le> a"
  using strcmp_less_iff [OF assms] by auto

lemma strcmp_swap: "strcmp a b = - strcmp b a"
  by (induction a b rule: strcmp.induct) auto

lemma strcmp_nonpos_iff:
  assumes "CHR 0x00 \<notin> set a" "CHR 0x00 \<notin> set b"
  shows "strcmp a b \<le> 0 \<longleftrightarrow> a \<le> b"
proof -
  have "strcmp a b \<le> 0 \<longleftrightarrow> \<not> strcmp b a < 0"
    using strcmp_swap [of a b] by auto
  then show ?thesis
    using strcmp_less_iff [OF assms(2,1)] by auto
qed

lemma set_insert_channel: "set (insert_channel x cl) = insert x (set cl)"
  by (induction cl) auto

lemma length_insert_channel: "length (insert_channel x cl) = Suc (length cl)"
  by (induction cl) auto

lemma sorted_insert_channel:
  assumes "sorted (map name cl)" "nul_free_names cl" "CHR 0x00 \<notin> set (name x)"
  shows "sorted (map name (insert_channel x cl))"
  using assms
proof (induction cl)
  case Nil
  show ?case by simp
next
  case (Cons c cl)
  have nf: "CHR 0x00 \<notin> set (name c)" "nul_free_names cl"
    using Cons.prems by (simp_all add: nul_free_names_def)
  show ?case
  proof (cases "strcmp (name x) (name c) < 0")
    case True
    then have "name x < name c" using strcmp_less_iff [OF Cons.prems(3) nf(1)] by simp
    then show ?thesis using True Cons.prems(1) by auto
  next
    case False
    then have le: "name c \<le> name x" using strcmp_le_iff [OF Cons.prems(3) nf(1)] by simp
    have "sorted (map name (insert_channel x cl))"
      using Cons.IH Cons.prems nf by simp
    then show ?thesis
      using False le Cons.prems(1) by (auto simp: set_insert_channel)
  qed
qed

lemma nul_free_insert_channel:
  "nul_free_names cl \<Longrightarrow> CHR 0x00 \<notin> set (name x) \<Longrightarrow> nul_free_names (insert_channel x cl)"
  by (simp add: nul_free_names_def set_insert_channel)

lemma read_string_loop_nul_free:
  "CHR 0x00 \<notin> set attrname
   \<Longrightarrow> CHR 0x00 \<notin> set (fst (snd (read_string_loop f kind pos attrname)))"
proof (induction f kind pos attrname rule: read_string_loop.induct)
  case (1 f kind pos attrname)
  let ?b = "fst (snd (readfn f 1))"
  show ?case
  proof (cases "pos < 32 \<and> fst (readfn f 1) = 1 \<and> ?b \<noteq> [CHR 0x00]")
    case True
    then have one: "length (take 1 (user_file f)) = 1" by (simp add: readfn_def)
    then obtain c where c: "take 1 (user_file f) = [c]"
      by (cases "user_file f") auto
    then have b: "?b = [c]" "c \<noteq> CHR 0x00" using True by (simp_all add: readfn_def)
    have "CHR 0x00 \<notin> set (fst (snd (read_string_loop
                 ((snd (snd (readfn f 1)))\<lparr>cur_file_pos := cur_file_pos (snd (snd (readfn f 1))) + 1\<rparr>)
                 kind (pos + 1) (attrname @ ?b))))"
      using True "1.prems" b
      by (intro "1.IH" [of "readfn f 1" "fst (readfn f 1)" "snd (readfn f 1)"
            ?b "snd (snd (readfn f 1))"]) (simp_all add: prod_eq_iff)
    with True show ?thesis
      by (subst read_string_loop.simps) (simp add: split_beta Let_def)
  next
    case False
    then show ?thesis using "1.prems"
      by (subst read_string_loop.simps) (auto simp: split_beta Let_def dest: in_set_takeD)
  qed
qed

lemma read_string_nul_free:
  "read_string f kind = (r, nm, f') \<Longrightarrow> CHR 0x00 \<notin> set nm"
  using read_string_loop_nul_free [of "[]" f kind 0] by (simp add: read_string_def)

lemma chlist_loop_sorted:
  "sorted (map name cl) \<Longrightarrow> nul_free_names cl
   \<Longrightarrow> sorted (map name (fst (snd (chlist_loop f cl num))))"
proof (induction "length (user_file f)" arbitrary: f cl num rule: less_induct)
  case less
  obtain rs chstr f0 where rs: "read_string f ''channel'' = (rs, chstr, f0)"
    by (cases "read_string f ''channel''") auto
  obtain r1 b1 f1 where r1: "attr_check_size_and_read f0 4 4 ''channel pixel type'' = (r1, b1, f1)"
    by (cases "attr_check_size_and_read f0 4 4 ''channel pixel type''") auto
  obtain r2 b2 f2 where r2: "attr_check_size_and_read f1 1 1 ''channel linear flag'' = (r2, b2, f2)"
    by (cases "attr_check_size_and_read f1 1 1 ''channel linear flag''") auto
  obtain r3 b3 f3 where r3: "attr_check_size_and_read f2 3 3 ''channel padding'' = (r3, b3, f3)"
    by (cases "attr_check_size_and_read f2 3 3 ''channel padding''") auto
  obtain r4 b4 f4 where r4: "attr_check_size_and_read f3 4 4 ''channel x sampling'' = (r4, b4, f4)"
    by (cases "attr_check_size_and_read f3 4 4 ''channel x sampling''") auto
  obtain r5 b5 f5 where r5: "attr_check_size_and_read f4 4 4 ''channel y sampling'' = (r5, b5, f5)"
    by (cases "attr_check_size_and_read f4 4 4 ''channel y sampling''") auto
  note len = read_string_length [OF rs] attr_check_size_and_read_length [OF r1]
    attr_check_size_and_read_length [OF r2] attr_check_size_and_read_length [OF r3]
    attr_check_size_and_read_length [OF r4] attr_check_size_and_read_length [OF r5]
  let ?new = "\<lparr>name = chstr, pixel_type = le32 b1, p_linear = le8 b2,
                reserved = b3, x_sampling = le32 b4, y_sampling = le32 b5\<rparr>"
  have nf: "CHR 0x00 \<notin> set (name ?new)" using read_string_nul_free [OF rs] by simp
  show ?case
  proof (cases "rs \<noteq> 0 \<and> malloc_ok f0 sizeof_tmp_ch_list \<and> \<not> r1 < 0 \<and> \<not> r2 < 0 \<and> \<not> r3 < 0
                 \<and> \<not> r4 < 0 \<and> \<not> r5 < 0")
    case True
    then have "length (user_file f1) + 4 = length (user_file f0)"
      using attr_check_size_and_read_consumes [OF r1] by simp
    then have lt: "length (user_file f5) < length (user_file f)" using len by simp
    have "sorted (map name (fst (snd (chlist_loop f5 (insert_channel ?new cl) (num + 1)))))"
      using sorted_insert_channel [OF less.prems nf] nul_free_insert_channel [OF less.prems(2) nf]
      by (intro less.hyps [OF lt])
    with True show ?thesis
      by (subst chlist_loop.simps) (simp add: rs r1 r2 r3 r4 r5 del: One_nat_def)
  next
    case False
    then show ?thesis using less.prems
      by (subst chlist_loop.simps) (auto simp: rs r1 r2 r3 r4 r5 simp del: One_nat_def)
  qed
qed

lemma chlist_loop_nul_free:
  "nul_free_names cl \<Longrightarrow> nul_free_names (fst (snd (chlist_loop f cl num)))"
proof (induction "length (user_file f)" arbitrary: f cl num rule: less_induct)
  case less
  obtain rs chstr f0 where rs: "read_string f ''channel'' = (rs, chstr, f0)"
    by (cases "read_string f ''channel''") auto
  obtain r1 b1 f1 where r1: "attr_check_size_and_read f0 4 4 ''channel pixel type'' = (r1, b1, f1)"
    by (cases "attr_check_size_and_read f0 4 4 ''channel pixel type''") auto
  obtain r2 b2 f2 where r2: "attr_check_size_and_read f1 1 1 ''channel linear flag'' = (r2, b2, f2)"
    by (cases "attr_check_size_and_read f1 1 1 ''channel linear flag''") auto
  obtain r3 b3 f3 where r3: "attr_check_size_and_read f2 3 3 ''channel padding'' = (r3, b3, f3)"
    by (cases "attr_check_size_and_read f2 3 3 ''channel padding''") auto
  obtain r4 b4 f4 where r4: "attr_check_size_and_read f3 4 4 ''channel x sampling'' = (r4, b4, f4)"
    by (cases "attr_check_size_and_read f3 4 4 ''channel x sampling''") auto
  obtain r5 b5 f5 where r5: "attr_check_size_and_read f4 4 4 ''channel y sampling'' = (r5, b5, f5)"
    by (cases "attr_check_size_and_read f4 4 4 ''channel y sampling''") auto
  note len = read_string_length [OF rs] attr_check_size_and_read_length [OF r1]
    attr_check_size_and_read_length [OF r2] attr_check_size_and_read_length [OF r3]
    attr_check_size_and_read_length [OF r4] attr_check_size_and_read_length [OF r5]
  let ?new = "\<lparr>name = chstr, pixel_type = le32 b1, p_linear = le8 b2,
                reserved = b3, x_sampling = le32 b4, y_sampling = le32 b5\<rparr>"
  have nf: "CHR 0x00 \<notin> set (name ?new)" using read_string_nul_free [OF rs] by simp
  show ?case
  proof (cases "rs \<noteq> 0 \<and> malloc_ok f0 sizeof_tmp_ch_list \<and> \<not> r1 < 0 \<and> \<not> r2 < 0 \<and> \<not> r3 < 0
                 \<and> \<not> r4 < 0 \<and> \<not> r5 < 0")
    case True
    then have "length (user_file f1) + 4 = length (user_file f0)"
      using attr_check_size_and_read_consumes [OF r1] by simp
    then have lt: "length (user_file f5) < length (user_file f)" using len by simp
    have "nul_free_names (fst (snd (chlist_loop f5 (insert_channel ?new cl) (num + 1))))"
      using nul_free_insert_channel [OF less.prems nf]
      by (intro less.hyps [OF lt])
    with True show ?thesis
      by (subst chlist_loop.simps) (simp add: rs r1 r2 r3 r4 r5 del: One_nat_def)
  next
    case False
    then show ?thesis using less.prems
      by (subst chlist_loop.simps) (auto simp: rs r1 r2 r3 r4 r5 simp del: One_nat_def)
  qed
qed

lemma sorted_wrt_strcmp:
  assumes "sorted (map name es)" "nul_free_names es"
  shows "sorted_wrt (\<lambda>a b. strcmp (name a) (name b) \<le> 0) es"
proof -
  have "sorted_wrt (\<lambda>a b. name a \<le> name b) es"
    using assms(1) by (simp add: sorted_map)
  then show ?thesis
    using assms(2)
    by (rule_tac sorted_wrt_mono_rel [rotated])
      (auto simp: nul_free_names_def strcmp_nonpos_iff)
qed

lemma attr_read_chlist_sorted:
  assumes "attr_read_chlist f sz = (ret, dest, f')" "entries dest = Some es"
  shows "sorted (map name es) \<and> nul_free_names es"
proof -
  let ?r = "chlist_loop f [] 0"
  have s: "sorted (map name (fst (snd ?r)))"
    by (rule chlist_loop_sorted) (simp_all add: nul_free_names_def)
  have n: "nul_free_names (fst (snd ?r))"
    by (rule chlist_loop_nul_free) (simp add: nul_free_names_def)
  have "es = take (nat (fst (snd (snd ?r)))) (fst (snd ?r))"
    using assms by (auto simp: attr_read_chlist_def Let_def split_beta split: if_splits)
  then show ?thesis
    using s n by (auto simp: sorted_map nul_free_names_def sorted_wrt_take dest: in_set_takeD)
qed

lemma attr_check_size_and_read_ok:
  assumes "size_t_of_int32 given = n" "n \<le> length (user_file f)"
  shows "attr_check_size_and_read f given n tname
         = (1, take n (user_file f),
            f\<lparr>user_file := drop n (user_file f), cur_file_pos := cur_file_pos f + n\<rparr>)"
  using assms by (simp add: attr_check_size_and_read_def readfn_def min_def)

lemma size_t_small [simp]:
  "size_t_of_int32 4 = 4" "size_t_of_int32 1 = 1" "size_t_of_int32 3 = 3"
  by (simp_all add: size_t_of_int32_def)

lemma le32_take4 [simp]: "le32 (take 4 bs) = le32 bs"
  by (simp add: le32_def)

lemma le8_take1 [simp]: "le8 (take 1 bs) = le8 bs"
  by (simp add: le8_def)

lemma chlist_loop_end:
  assumes "user_file f = CHR 0x00 # rest"
  shows "chlist_loop f cl num
         = (1, cl, num, f\<lparr>user_file := rest, cur_file_pos := cur_file_pos f + 1\<rparr>)"
  using read_string_cstring [of f "[]" rest "''channel''"] assms
  by (subst chlist_loop.simps) simp

lemma chlist_loop_channel:
  assumes uf: "user_file f = channel_record c @ rest" and wf: "wellformed_channel c"
    and m: "malloc_ok f sizeof_tmp_ch_list"
  shows "chlist_loop f cl num
         = chlist_loop
             (f\<lparr>user_file := rest, cur_file_pos := cur_file_pos f + length (channel_record c)\<rparr>)
             (insert_channel (channel_decoded c) cl) (num + 1)"
proof -
  obtain nm raw where c: "c = (nm, raw)" by (cases c)
  have nm: "nm \<noteq> []" "CHR 0x00 \<notin> set nm" "length nm < 32" and raw: "length raw = 16"
    using wf by (simp_all add: c wellformed_channel_def cstring_def)
  let ?f0 = "f\<lparr>user_file := raw @ rest, cur_file_pos := cur_file_pos f + length nm + 1\<rparr>"
  let ?f1 = "?f0\<lparr>user_file := drop 4 raw @ rest, cur_file_pos := cur_file_pos ?f0 + 4\<rparr>"
  let ?f2 = "?f1\<lparr>user_file := drop 5 raw @ rest, cur_file_pos := cur_file_pos ?f1 + 1\<rparr>"
  let ?f3 = "?f2\<lparr>user_file := drop 8 raw @ rest, cur_file_pos := cur_file_pos ?f2 + 3\<rparr>"
  let ?f4 = "?f3\<lparr>user_file := drop 12 raw @ rest, cur_file_pos := cur_file_pos ?f3 + 4\<rparr>"
  let ?f5 = "?f4\<lparr>user_file := rest, cur_file_pos := cur_file_pos ?f4 + 4\<rparr>"
  have rs: "read_string f ''channel'' = (int (length nm), nm, ?f0)"
    using uf nm by (intro read_string_cstring) (simp_all add: c channel_record_def)
  have m0: "malloc_ok ?f0 sizeof_tmp_ch_list" using m by (simp add: malloc_ok_def)
  have r1: "attr_check_size_and_read ?f0 4 4 ''channel pixel type'' = (1, take 4 raw, ?f1)"
    using raw by (subst attr_check_size_and_read_ok) simp_all
  have r2: "attr_check_size_and_read ?f1 1 1 ''channel linear flag''
            = (1, take 1 (drop 4 raw), ?f2)"
    using raw by (subst attr_check_size_and_read_ok) (simp_all del: One_nat_def)
  have r3: "attr_check_size_and_read ?f2 3 3 ''channel padding''
            = (1, take 3 (drop 5 raw), ?f3)"
    using raw by (subst attr_check_size_and_read_ok) simp_all
  have r4: "attr_check_size_and_read ?f3 4 4 ''channel x sampling''
            = (1, take 4 (drop 8 raw), ?f4)"
    using raw by (subst attr_check_size_and_read_ok) simp_all
  have r5: "attr_check_size_and_read ?f4 4 4 ''channel y sampling''
            = (1, take 4 (drop 12 raw), ?f5)"
    using raw by (subst attr_check_size_and_read_ok) simp_all
  have f5: "?f5 = f\<lparr>user_file := rest,
                     cur_file_pos := cur_file_pos f + length (channel_record c)\<rparr>"
    using raw by (simp add: c channel_record_def)
  have new: "\<lparr>name = nm, pixel_type = le32 (take 4 raw), p_linear = le8 (take 1 (drop 4 raw)),
              reserved = take 3 (drop 5 raw), x_sampling = le32 (take 4 (drop 8 raw)),
              y_sampling = le32 (take 4 (drop 12 raw))\<rparr> = channel_decoded c"
    by (simp add: c channel_decoded_def del: One_nat_def)
  have "chlist_loop f cl num
        = chlist_loop ?f5
            (insert_channel
               \<lparr>name = nm, pixel_type = le32 (take 4 raw), p_linear = le8 (take 1 (drop 4 raw)),
                reserved = take 3 (drop 5 raw), x_sampling = le32 (take 4 (drop 8 raw)),
                y_sampling = le32 (take 4 (drop 12 raw))\<rparr> cl) (num + 1)"
    using nm(1) m0
    by (subst chlist_loop.simps) (simp only: rs prod.case Let_def r1 r2 r3 r4 r5, simp)
  then show ?thesis by (simp only: f5 new)
qed

lemma chlist_loop_payload:
  assumes "\<forall>c \<in> set chans. wellformed_channel c"
    and "user_file f = chlist_payload chans @ rest"
    and "malloc_ok f sizeof_tmp_ch_list"
  shows "chlist_loop f cl num
         = (1, foldl (\<lambda>l c. insert_channel (channel_decoded c) l) cl chans,
            num + int (length chans),
            f\<lparr>user_file := rest,
              cur_file_pos := cur_file_pos f + length (chlist_payload chans)\<rparr>)"
  using assms
proof (induction chans arbitrary: f cl num)
  case Nil
  then show ?case
    using chlist_loop_end [of f rest cl num] by (simp add: chlist_payload_def)
next
  case (Cons c chans)
  let ?f' = "f\<lparr>user_file := chlist_payload chans @ rest,
                cur_file_pos := cur_file_pos f + length (channel_record c)\<rparr>"
  have uf: "user_file f = channel_record c @ (chlist_payload chans @ rest)"
    using Cons.prems(2) by (simp add: chlist_payload_def)
  have step: "chlist_loop f cl num
              = chlist_loop ?f' (insert_channel (channel_decoded c) cl) (num + 1)"
    using Cons.prems by (intro chlist_loop_channel [OF uf]) simp_all
  have "chlist_loop ?f' (insert_channel (channel_decoded c) cl) (num + 1)
        = (1, foldl (\<lambda>l c. insert_channel (channel_decoded c) l)
                (insert_channel (channel_decoded c) cl) chans,
           num + 1 + int (length chans),
           ?f'\<lparr>user_file := rest,
               cur_file_pos := cur_file_pos ?f' + length (chlist_payload chans)\<rparr>)"
    using Cons.prems by (intro Cons.IH) (simp_all add: malloc_ok_def)
  then show ?case
    unfolding step by (simp add: chlist_payload_def ac_simps)
qed

lemma mset_insert_channel: "mset (insert_channel x cl) = add_mset x (mset cl)"
  by (induction cl) auto

lemma mset_foldl_insert_channel:
  "mset (foldl (\<lambda>l c. insert_channel (channel_decoded c) l) cl chans)
   = mset cl + mset (map channel_decoded chans)"
  by (induction chans arbitrary: cl) (simp_all add: mset_insert_channel)

lemma length_foldl_insert_channel:
  "length (foldl (\<lambda>l c. insert_channel (channel_decoded c) l) cl chans)
   = length cl + length chans"
  by (induction chans arbitrary: cl) (simp_all add: length_insert_channel)

text \<open>
  Claim C3. Whatever the stream holds, when \<open>attr_read_chlist\<close> produces an array of
  entries, the array is sorted by name: ascending in the lexicographic order of the
  bytes, which is the order \<open>strcmp\<close> decides. And for a payload of well-formed channels
  in any order the read succeeds, consumes exactly the payload, and the array holds
  exactly the channels of the payload, sorted by name.
\<close>

theorem channel_list_is_sorted_by_name:
  "(\<forall>f sz ret dest f' es.
      attr_read_chlist f sz = (ret, dest, f') \<and> entries dest = Some es
      \<longrightarrow> sorted (map name es) \<and> sorted_wrt (\<lambda>a b. strcmp (name a) (name b) \<le> 0) es) \<and>
   (\<forall>f sz chans rest.
      chans \<noteq> [] \<and> (\<forall>c \<in> set chans. wellformed_channel c) \<and>
      user_file f = chlist_payload chans @ rest \<and>
      malloc_ok f (max sizeof_tmp_ch_list (length chans * sizeof_chlist_entry))
      \<longrightarrow> (\<exists>es f'. attr_read_chlist f sz
                     = (1, \<lparr>num_channels = int (length chans), entries = Some es\<rparr>, f') \<and>
                   user_file f' = rest \<and>
                   mset es = mset (map channel_decoded chans) \<and>
                   sorted (map name es) \<and>
                   sorted_wrt (\<lambda>a b. strcmp (name a) (name b) \<le> 0) es))"
proof (intro conjI allI impI)
  fix f sz ret dest f' es
  assume a: "attr_read_chlist f sz = (ret, dest, f') \<and> entries dest = Some es"
  then have "sorted (map name es) \<and> nul_free_names es"
    using attr_read_chlist_sorted [of f sz ret dest f' es] by simp
  then show "sorted (map name es)" and "sorted_wrt (\<lambda>a b. strcmp (name a) (name b) \<le> 0) es"
    using sorted_wrt_strcmp [of es] by simp_all
next
  fix f :: ACES_INTERNAL_FILE_DATA and sz and chans :: "(string \<times> string) list" and rest
  assume a: "chans \<noteq> [] \<and> (\<forall>c \<in> set chans. wellformed_channel c) \<and>
      user_file f = chlist_payload chans @ rest \<and>
      malloc_ok f (max sizeof_tmp_ch_list (length chans * sizeof_chlist_entry))"
  let ?es = "foldl (\<lambda>l c. insert_channel (channel_decoded c) l) [] chans"
  let ?f' = "f\<lparr>user_file := rest,
               cur_file_pos := cur_file_pos f + length (chlist_payload chans)\<rparr>"
  have m: "malloc_ok f sizeof_tmp_ch_list"
    "malloc_ok ?f' (length chans * sizeof_chlist_entry)"
    using a by (simp_all add: malloc_ok_def)
  have loop: "chlist_loop f [] 0 = (1, ?es, int (length chans), ?f')"
    using a m chlist_loop_payload [of chans f rest "[]" 0] by simp
  have len: "length ?es = length chans"
    by (simp add: length_foldl_insert_channel)
  have res: "attr_read_chlist f sz
             = (1, \<lparr>num_channels = int (length chans), entries = Some ?es\<rparr>, ?f')"
    using a m(2) len by (simp add: attr_read_chlist_def loop)
  have ms: "mset ?es = mset (map channel_decoded chans)"
    by (simp add: mset_foldl_insert_channel)
  have so: "sorted (map name ?es) \<and> nul_free_names ?es"
    using attr_read_chlist_sorted [OF res] by simp
  show "\<exists>es f'. attr_read_chlist f sz
                     = (1, \<lparr>num_channels = int (length chans), entries = Some es\<rparr>, f') \<and>
                   user_file f' = rest \<and>
                   mset es = mset (map channel_decoded chans) \<and>
                   sorted (map name es) \<and>
                   sorted_wrt (\<lambda>a b. strcmp (name a) (name b) \<le> 0) es"
    using res ms so sorted_wrt_strcmp [of ?es]
    by (intro exI [of _ ?es] exI [of _ ?f']) simp
qed

lemma sort_grba: "sort [''G'', ''R'', ''B'', ''A''] = [''A'', ''B'', ''G'', ''R'']"
  by (simp add: less_eq_char_def less_char_def)

text \<open>The instance of C3 in the claim: the payload G, R, B, A parses to A, B, G, R.\<close>

theorem channel_list_is_sorted_by_name_witness:
  "\<exists>es f'. attr_read_chlist grba_file 0 = (1, \<lparr>num_channels = 4, entries = Some es\<rparr>, f') \<and>
           user_file f' = ''next'' \<and>
           map name es = [''A'', ''B'', ''G'', ''R'']"
proof -
  have wf: "grba_channels \<noteq> [] \<and> (\<forall>c \<in> set grba_channels. wellformed_channel c) \<and>
      user_file grba_file = chlist_payload grba_channels @ ''next'' \<and>
      malloc_ok grba_file (max sizeof_tmp_ch_list (length grba_channels * sizeof_chlist_entry))"
    by (simp add: grba_channels_def wellformed_channel_def cstring_def half_1x1_def
        grba_file_def alloc_file_data_struct_def malloc_ok_def sizeof_tmp_ch_list_def
        sizeof_chlist_entry_def)
  obtain es f' where r: "attr_read_chlist grba_file 0
        = (1, \<lparr>num_channels = int (length grba_channels), entries = Some es\<rparr>, f')"
    and u: "user_file f' = ''next''"
    and ms: "mset es = mset (map channel_decoded grba_channels)"
    and so: "sorted (map name es)"
    using channel_list_is_sorted_by_name wf by blast
  have "mset (map name es) = mset [''G'', ''R'', ''B'', ''A'']"
    using ms mset_map [of name es]
    by (simp add: grba_channels_def channel_decoded_def)
  then have "sort [''G'', ''R'', ''B'', ''A''] = map name es"
    using so by (intro properties_for_sort) simp_all
  then have "map name es = [''A'', ''B'', ''G'', ''R'']"
    by (simp only: sort_grba)
  then show ?thesis
    using r u by (auto simp: grba_channels_def)
qed

section \<open>String attributes: claim C4\<close>

text \<open>
  Claim C4. \<open>attr_read_string\<close> takes the declared size as the length of the string:
  there is no length prefix. For a declared size \<open>n \<ge> 0\<close> it asks \<open>malloc\<close> for \<open>n\<close>
  bytes; when that is granted and the stream has \<open>n\<close> bytes it returns 1 with exactly
  the next \<open>n\<close> bytes, whatever they are, and has consumed exactly those; when the
  stream has fewer it returns \<open>-1\<close> with the truncated-string message; when the
  allocation fails it returns \<open>-1\<close> and reads nothing. A negative declared size always
  fails. Declared size 5 on the bytes \<open>hello\<close> gives the string \<open>hello\<close> of length 5.
\<close>

theorem string_attribute_is_declared_size_bytes:
  "(0 \<le> sint sz \<and> malloc_ok f (nat (sint sz)) \<and> nat (sint sz) \<le> length (user_file f)
      \<longrightarrow> attr_read_string f sz
          = (1, \<lparr>length_s = sz, str = Some (take (nat (sint sz)) (user_file f))\<rparr>,
             f\<lparr>user_file := drop (nat (sint sz)) (user_file f),
               cur_file_pos := cur_file_pos f + nat (sint sz)\<rparr>)) \<and>
   (0 \<le> sint sz \<and> malloc_ok f (nat (sint sz)) \<and> length (user_file f) < nat (sint sz)
      \<longrightarrow> attr_read_string f sz
          = (- 1, \<lparr>length_s = sz, str = None\<rparr>,
             f\<lparr>user_file := [],
               cur_file_pos := cur_file_pos f + length (user_file f),
               errors := errors f @ [StringTruncated (given_filename f) sz]\<rparr>)) \<and>
   (0 \<le> sint sz \<and> \<not> malloc_ok f (nat (sint sz))
      \<longrightarrow> attr_read_string f sz
          = (- 1, \<lparr>length_s = sz, str = None\<rparr>,
             f\<lparr>errors := errors f @ [StringAllocFailed (given_filename f) sz]\<rparr>)) \<and>
   (sint sz < 0 \<longrightarrow> fst (attr_read_string f sz) = - 1) \<and>
   (user_file f = ''hello'' @ rest \<and> malloc_ok f 5
      \<longrightarrow> attr_read_string f 5
          = (1, \<lparr>length_s = 5, str = Some ''hello''\<rparr>,
             f\<lparr>user_file := rest, cur_file_pos := cur_file_pos f + 5\<rparr>))"
proof (intro conjI impI)
  assume a: "0 \<le> sint sz \<and> malloc_ok f (nat (sint sz)) \<and> nat (sint sz) \<le> length (user_file f)"
  then show "attr_read_string f sz
          = (1, \<lparr>length_s = sz, str = Some (take (nat (sint sz)) (user_file f))\<rparr>,
             f\<lparr>user_file := drop (nat (sint sz)) (user_file f),
               cur_file_pos := cur_file_pos f + nat (sint sz)\<rparr>)"
    by (auto simp: attr_read_string_def size_t_of_int32_nonneg readfn_def min_def Let_def)
next
  assume a: "0 \<le> sint sz \<and> malloc_ok f (nat (sint sz)) \<and> length (user_file f) < nat (sint sz)"
  then have "int (length (user_file f)) \<noteq> sint sz" by linarith
  with a show "attr_read_string f sz
          = (- 1, \<lparr>length_s = sz, str = None\<rparr>,
             f\<lparr>user_file := [],
               cur_file_pos := cur_file_pos f + length (user_file f),
               errors := errors f @ [StringTruncated (given_filename f) sz]\<rparr>)"
    by (simp add: attr_read_string_def size_t_of_int32_nonneg readfn_def min_def print_error_def
        Let_def)
next
  assume "0 \<le> sint sz \<and> \<not> malloc_ok f (nat (sint sz))"
  then show "attr_read_string f sz
          = (- 1, \<lparr>length_s = sz, str = None\<rparr>,
             f\<lparr>errors := errors f @ [StringAllocFailed (given_filename f) sz]\<rparr>)"
    by (simp add: attr_read_string_def size_t_of_int32_nonneg print_error_def)
next
  assume "sint sz < 0"
  then show "fst (attr_read_string f sz) = - 1"
    by (auto simp: attr_read_string_def readfn_def Let_def)
next
  assume a: "user_file f = ''hello'' @ rest \<and> malloc_ok f 5"
  have s: "sint (5 :: 32 word) = 5" by simp
  show "attr_read_string f 5
          = (1, \<lparr>length_s = 5, str = Some ''hello''\<rparr>,
             f\<lparr>user_file := rest, cur_file_pos := cur_file_pos f + 5\<rparr>)"
    using a by (simp add: attr_read_string_def size_t_of_int32_nonneg [of 5] readfn_def)
qed

text \<open>The theorem of C4 on the stream \<open>hello\<close>, on a stream one byte short, with too
  little memory, and with a negative size.\<close>

theorem string_attribute_is_declared_size_bytes_witness:
  "attr_read_string hello_file 5
   = (1, \<lparr>length_s = 5, str = Some ''hello''\<rparr>,
      hello_file\<lparr>user_file := ''next'', cur_file_pos := 5\<rparr>) \<and>
   attr_read_string (hello_file\<lparr>user_file := ''hell''\<rparr>) 5
   = (- 1, \<lparr>length_s = 5, str = None\<rparr>,
      hello_file\<lparr>user_file := [], cur_file_pos := 4,
        errors := [StringTruncated [] 5]\<rparr>) \<and>
   attr_read_string (hello_file\<lparr>malloc_limit := 4\<rparr>) 5
   = (- 1, \<lparr>length_s = 5, str = None\<rparr>,
      hello_file\<lparr>malloc_limit := 4, errors := [StringAllocFailed [] 5]\<rparr>) \<and>
   fst (attr_read_string hello_file (- 1)) = - 1"
proof -
  have s: "sint (5 :: 32 word) = 5" "sint (- 1 :: 32 word) = - 1" by simp_all
  have 1: "attr_read_string hello_file 5
   = (1, \<lparr>length_s = 5, str = Some ''hello''\<rparr>,
      hello_file\<lparr>user_file := ''next'', cur_file_pos := 5\<rparr>)"
    using string_attribute_is_declared_size_bytes [of 5 hello_file "''next''"]
    by (simp add: hello_file_def alloc_file_data_struct_def malloc_ok_def)
  have 2: "attr_read_string (hello_file\<lparr>user_file := ''hell''\<rparr>) 5
   = (- 1, \<lparr>length_s = 5, str = None\<rparr>,
      hello_file\<lparr>user_file := [], cur_file_pos := 4,
        errors := [StringTruncated [] 5]\<rparr>)"
    using string_attribute_is_declared_size_bytes [of 5 "hello_file\<lparr>user_file := ''hell''\<rparr>" "[]"]
    by (simp add: hello_file_def alloc_file_data_struct_def malloc_ok_def)
  have 3: "attr_read_string (hello_file\<lparr>malloc_limit := 4\<rparr>) 5
   = (- 1, \<lparr>length_s = 5, str = None\<rparr>,
      hello_file\<lparr>malloc_limit := 4, errors := [StringAllocFailed [] 5]\<rparr>)"
    using string_attribute_is_declared_size_bytes [of 5 "hello_file\<lparr>malloc_limit := 4\<rparr>" "[]"]
    by (simp add: hello_file_def alloc_file_data_struct_def malloc_ok_def)
  have 4: "fst (attr_read_string hello_file (- 1)) = - 1"
    using string_attribute_is_declared_size_bytes [of "- 1" hello_file "[]"] by simp
  show ?thesis using 1 2 3 4 by simp
qed

section \<open>Size check of fixed-size attributes: claim C5\<close>

lemma attr_check_size_mismatch:
  "size_t_of_int32 given \<noteq> n
   \<Longrightarrow> attr_check_size_and_read g given n tname
       = (- 1, [], g\<lparr>errors := errors g @ [SizeMismatch (given_filename g) n tname given]\<rparr>)"
  by (simp add: attr_check_size_and_read_def print_error_def)

text \<open>
  Claim C5. An attribute record of a fixed-size type (one the \<open>switch\<close> hands to
  \<open>attr_check_size_and_read\<close> with a native size \<open>n\<close>) whose declared size is not \<open>n\<close>:
  \<open>attr_check_size_and_read\<close> returns \<open>-1\<close> with the size-mismatch message and without
  calling the read callback, so the stream after \<open>read_attribute\<close> still starts with the
  payload; the attribute loop stops with \<open>-1\<close> from any state that has this record next,
  and so does \<open>read_header\<close>, wherever in the header the record stands.
\<close>

theorem fixed_size_mismatch_aborts:
  assumes rec: "user_file f = attr_record_head nm tname sz4 @ payload_bytes"
    and nm: "nm \<noteq> []" "cstring nm" and tn: "cstring tname" and sz: "length sz4 = 4"
    and fixed: "native_size (attr_name_to_type tname) = Some n"
    and differs: "sint (le32 sz4) \<noteq> int n"
    and after: "f' = f\<lparr>user_file := payload_bytes,
                        cur_file_pos := cur_file_pos f + length nm + length tname + 6,
                        errors := errors f @ [SizeMismatch (given_filename f) n tname (le32 sz4)]\<rparr>"
  shows "(\<forall>g. attr_check_size_and_read g (le32 sz4) n tname
              = (- 1, [], g\<lparr>errors := errors g
                   @ [SizeMismatch (given_filename g) n tname (le32 sz4)]\<rparr>)) \<and>
         read_attribute f
           = (- 1, nm, \<lparr>type_name = None, type = attr_name_to_type tname, payload = U_bytes []\<rparr>,
              f') \<and>
         (\<forall>m. read_attributes f m = Inr (- 1, m, f')) \<and>
         (\<forall>f0 m. header_accepted f0 \<and> loop_reaches (header_start f0) 0 f m
            \<longrightarrow> read_header f0 = Inr (- 1, f'))"
proof -
  have ne: "size_t_of_int32 (le32 sz4) \<noteq> n"
    using differs size_t_of_int32_eq [OF native_size_small [OF fixed]] by simp
  have ra: "read_attribute f
            = (- 1, nm, \<lparr>type_name = None, type = attr_name_to_type tname, payload = U_bytes []\<rparr>,
               f')"
    unfolding read_attribute_record [OF rec nm tn sz] after
    by (simp add: read_attribute_payload_def fixed attr_check_size_mismatch [OF ne] ac_simps)
  have loop: "read_attributes f m = Inr (- 1, m, f')" for m
    using ra by (intro read_attributes_stop) simp_all
  have hdr: "read_header f0 = Inr (- 1, f')"
    if "header_accepted f0" "loop_reaches (header_start f0) 0 f m" for f0 m
    using that ra by (intro read_header_loop_abort [where f = f and m = m]) simp_all
  show ?thesis
    using ra loop hdr attr_check_size_mismatch [OF ne] by blast
qed

text \<open>The instance of C5 in the claim: a \<open>box2i\<close> attribute (native size 16) declared with
  15 bytes, after one attribute that is read and stored. The header fails with the
  size-mismatch message and the 15 bytes of payload are still in the stream.\<close>

theorem fixed_size_mismatch_aborts_witness:
  "(case read_header box2i_15_file of
      Inl e \<Rightarrow> False
    | Inr (rc, f') \<Rightarrow>
        rc = - 1 \<and> user_file f' = box2i_15_payload \<and> compression f' = 3 \<and>
        errors f' = [SizeMismatch [] 16 ''box2i'' 15])"
proof -
  let ?rest = "attr_record_head ''dataWindow'' ''box2i'' [CHR 0x0F, CHR 0x00, CHR 0x00, CHR 0x00]
               @ box2i_15_payload"
  let ?f0 = "box2i_15_file"
  let ?attr = "\<lparr>type_name = None, type = ACES_ATTR_COMPRESSION, payload = U_bytes [CHR 0x03]\<rparr>"
  let ?f2 = "(header_start ?f0)\<lparr>user_file := ?rest, cur_file_pos := 37\<rparr>"
  let ?f3 = "?f2\<lparr>compression := 3\<rparr>"
  have uf: "user_file ?f0 = exr_magic @ version_scanline
        @ (attr_record_head ''compression'' ''compression'' [CHR 0x01, CHR 0x00, CHR 0x00, CHR 0x00]
           @ ([CHR 0x03] @ ?rest))"
    by (simp add: box2i_15_file_def alloc_file_data_struct_def)
  have acc: "header_accepted ?f0"
    by (rule header_accepted_scanline [OF uf])
  have hs: "user_file (header_start ?f0)
            = attr_record_head ''compression'' ''compression'' [CHR 0x01, CHR 0x00, CHR 0x00, CHR 0x00]
              @ ([CHR 0x03] @ ?rest)"
    "cur_file_pos (header_start ?f0) = 8" "errors (header_start ?f0) = []"
    "given_filename (header_start ?f0) = []"
    unfolding header_start_scanline [OF uf]
    by (simp_all add: box2i_15_file_def alloc_file_data_struct_def)
  have ra: "read_attribute (header_start ?f0) = (1, ''compression'', ?attr, ?f2)"
    unfolding read_attribute_record [OF hs(1), simplified cstring_def, simplified]
    by (simp add: read_attribute_payload_def attr_name_to_type_compression
        attr_check_size_and_read_def size_t_of_int32_def le32_def le_nat_def readfn_def hs)
  have aa: "add_attribute ?f2 ''compression'' ?attr = Inr (REQ_COMP_MASK, ?f3)"
    by (simp add: add_attribute_def attr_uc_def union_image_def union_bytes_def le8_def le_nat_def)
  have reach: "loop_reaches (header_start ?f0) 0 ?f3 (0 OR REQ_COMP_MASK)"
    by (rule loop_reaches.step [OF loop_reaches.start ra aa])
  have rec: "user_file ?f3 = ?rest" by simp
  have ty: "native_size (attr_name_to_type ''box2i'') = Some 16"
    by (simp add: attr_name_to_type_box2i)
  have d: "sint (le32 [CHR 0x0F, CHR 0x00, CHR 0x00, CHR 0x00]) \<noteq> int 16"
    by (simp add: le32_def le_nat_def)
  have "read_header ?f0
        = Inr (- 1, ?f3\<lparr>user_file := box2i_15_payload,
                         cur_file_pos := cur_file_pos ?f3 + length ''dataWindow'' + length ''box2i'' + 6,
                         errors := errors ?f3 @ [SizeMismatch (given_filename ?f3) 16 ''box2i''
                            (le32 [CHR 0x0F, CHR 0x00, CHR 0x00, CHR 0x00])]\<rparr>)"
    using fixed_size_mismatch_aborts [OF rec _ _ _ _ ty d refl] acc reach
    by (simp add: cstring_def) blast
  then show ?thesis
    by (simp add: hs le32_def le_nat_def)
qed

section \<open>The magic number: claim C6\<close>

text \<open>
  Claim C6, as the code has it. \<open>read_header\<close> first reads the two header words, 8 bytes,
  in one call. On a file that has them and whose first word is not 20000630 it returns
  \<open>-1\<close> with the bad-magic message after it has consumed those 8 bytes and nothing else.
  On a file of fewer than 8 bytes, whatever its first word, the read comes back short and
  \<open>read_header\<close> returns \<open>-1\<close> with the message that magic and version cannot be read.
  In both cases no attribute is read, and \<open>aces_start_read\<close> passes the one message on,
  frees the structure and returns the null pointer.
\<close>

theorem bad_magic_fails_open:
  "(\<forall>f. user_file f = contents \<longrightarrow>
      (8 \<le> length contents \<and> le32 contents \<noteq> 20000630 \<longrightarrow>
         read_header f
         = Inr (- 1, f\<lparr>user_file := drop 8 contents,
                       cur_file_pos := cur_file_pos f + 8,
                       errors := errors f @ [BadMagic (given_filename f) (le32 contents)]\<rparr>)) \<and>
      (length contents < 8 \<longrightarrow>
         read_header f
         = Inr (- 1, f\<lparr>user_file := [],
                       errors := errors f @ [MagicVersionTruncated (given_filename f)]\<rparr>))) \<and>
   (\<forall>w fn. can_open w fn contents \<longrightarrow>
      (8 \<le> length contents \<and> le32 contents \<noteq> 20000630 \<longrightarrow>
         (\<exists>w'. aces_start_read w fn = Inr (None, w') \<and>
               sink w' = sink w @ [BadMagic (take 255 fn) (le32 contents)] \<and>
               objs w' (next_ptr w) = None)) \<and>
      (length contents < 8 \<longrightarrow>
         (\<exists>w'. aces_start_read w fn = Inr (None, w') \<and>
               sink w' = sink w @ [MagicVersionTruncated (take 255 fn)] \<and>
               objs w' (next_ptr w) = None)))"
proof -
  have rh: "read_header f
            = Inr (- 1, f\<lparr>user_file := drop 8 contents,
                          cur_file_pos := cur_file_pos f + 8,
                          errors := errors f @ [BadMagic (given_filename f) (le32 contents)]\<rparr>)"
    if "user_file f = contents" "8 \<le> length contents" "le32 contents \<noteq> 20000630" for f
    using that
    by (simp add: read_header_def readfn_def le32_take8 print_error_def)
  have rs: "read_header f
            = Inr (- 1, f\<lparr>user_file := [],
                          errors := errors f @ [MagicVersionTruncated (given_filename f)]\<rparr>)"
    if "user_file f = contents" "length contents < 8" for f
    using that
    by (simp add: read_header_def readfn_def print_error_def min_def)
  have u: "user_file (opened_file w fn contents) = contents" for w fn
    by (simp add: opened_file_def)
  have op: "\<exists>w'. aces_start_read w fn = Inr (None, w') \<and>
                  sink w' = sink w @ [BadMagic (take 255 fn) (le32 contents)] \<and>
                  objs w' (next_ptr w) = None"
    if c: "can_open w fn contents" and l: "8 \<le> length contents" "le32 contents \<noteq> 20000630"
    for w fn
    using start_read_header_fails [OF c rh [OF u l]]
    by (auto simp: opened_file_def alloc_file_data_struct_def)
  have os: "\<exists>w'. aces_start_read w fn = Inr (None, w') \<and>
                  sink w' = sink w @ [MagicVersionTruncated (take 255 fn)] \<and>
                  objs w' (next_ptr w) = None"
    if c: "can_open w fn contents" and l: "length contents < 8" for w fn
    using start_read_header_fails [OF c rs [OF u l]]
    by (auto simp: opened_file_def alloc_file_data_struct_def)
  show ?thesis using rh rs op os by blast
qed

text \<open>
  Claim C6 as stated promises the bad-magic error for every file whose first word is not
  the magic number. The file of the seven bytes \<open>ABCDEFG\<close> has such a first word and can
  be opened, and the only message of \<open>aces_start_read\<close> is that magic and version cannot
  be read.
\<close>

theorem short_file_is_not_bad_magic_counterexample:
  "le32 ''ABCDEFG'' \<noteq> 20000630 \<and>
   can_open (one_file_world ''ABCDEFG'') ''a.exr'' ''ABCDEFG'' \<and>
   (case aces_start_read (one_file_world ''ABCDEFG'') ''a.exr'' of
      Inl e \<Rightarrow> False
    | Inr (h, w') \<Rightarrow> h = None \<and> sink w' = [MagicVersionTruncated ''a.exr''])"
  by (simp add: le32_def le_nat_def can_open_def one_file_world_def sizeof_file_data_def
      aces_start_read_def read_header_def readfn_def print_error_def aces_close_def
      alloc_file_data_struct_def Let_def)

text \<open>The theorem of C6 on a file that starts with \<open>NOT AN EXR FILE\<close> and on the file
  \<open>ABCDEFG\<close>.\<close>

theorem bad_magic_fails_open_witness:
  "can_open not_an_exr_world ''a.exr'' ''NOT AN EXR FILE'' \<and>
   le32 ''NOT AN EXR FILE'' \<noteq> 20000630 \<and>
   (\<exists>w'. aces_start_read not_an_exr_world ''a.exr'' = Inr (None, w') \<and>
         sink w' = [BadMagic ''a.exr'' (le32 ''NOT AN EXR FILE'')] \<and>
         objs w' 1 = None) \<and>
   can_open (one_file_world ''ABCDEFG'') ''a.exr'' ''ABCDEFG'' \<and>
   (\<exists>w'. aces_start_read (one_file_world ''ABCDEFG'') ''a.exr'' = Inr (None, w') \<and>
         sink w' = [MagicVersionTruncated ''a.exr''] \<and>
         objs w' 1 = None)"
proof -
  have c: "can_open not_an_exr_world ''a.exr'' ''NOT AN EXR FILE''"
    by (simp add: can_open_def not_an_exr_world_def sizeof_file_data_def)
  have l: "8 \<le> length ''NOT AN EXR FILE''" by simp
  have m: "le32 ''NOT AN EXR FILE'' \<noteq> 20000630"
    by (simp add: le32_def le_nat_def)
  have s: "sink not_an_exr_world = []" "next_ptr not_an_exr_world = 1"
    by (simp_all add: not_an_exr_world_def)
  from bad_magic_fails_open [of "''NOT AN EXR FILE''"] c l m
  have 1: "\<exists>w'. aces_start_read not_an_exr_world ''a.exr'' = Inr (None, w') \<and>
         sink w' = sink not_an_exr_world @ [BadMagic (take 255 ''a.exr'') (le32 ''NOT AN EXR FILE'')] \<and>
         objs w' (next_ptr not_an_exr_world) = None"
    by blast
  have c': "can_open (one_file_world ''ABCDEFG'') ''a.exr'' ''ABCDEFG''"
    by (simp add: can_open_def one_file_world_def sizeof_file_data_def)
  have l': "length ''ABCDEFG'' < 8" by simp
  have s': "sink (one_file_world ''ABCDEFG'') = []" "next_ptr (one_file_world ''ABCDEFG'') = 1"
    by (simp_all add: one_file_world_def)
  from bad_magic_fails_open [of "''ABCDEFG''"] c' l'
  have 2: "\<exists>w'. aces_start_read (one_file_world ''ABCDEFG'') ''a.exr'' = Inr (None, w') \<and>
         sink w' = sink (one_file_world ''ABCDEFG'') @ [MagicVersionTruncated (take 255 ''a.exr'')] \<and>
         objs w' (next_ptr (one_file_world ''ABCDEFG'')) = None"
    by blast
  show ?thesis
    using c m 1 c' 2 by (simp add: s s')
qed

section \<open>The version word: claim C7\<close>

text \<open>
  Claim C7. After a correct magic number, the second header word \<open>v\<close> decides: for
  \<open>0x2\<close> the attributes are read with the storage mode set to scanline, and the mode is
  scanline in whatever \<open>read_header\<close> returns and in the handle of a successful open;
  for \<open>0x202\<close> the same with tiled; for any other value \<open>read_header\<close> returns \<open>-1\<close>
  with the unsupported-version message after the 8 bytes, and the open returns the
  null pointer.
\<close>

theorem version_word_sets_storage_mode:
  assumes len: "8 \<le> length contents" and magic: "le32 contents = 20000630"
    and v: "le32 (drop 4 contents) = v"
  shows
   "(v = 0x2 \<longrightarrow>
       (\<forall>f. user_file f = contents \<longrightarrow>
          read_header f
          = header_exit (read_attributes
              (f\<lparr>user_file := drop 8 contents, cur_file_pos := cur_file_pos f + 8,
                 storage_mode := ACES_STORAGE_SCANLINE\<rparr>) 0) \<and>
          (\<forall>rc f'. read_header f = Inr (rc, f') \<longrightarrow> storage_mode f' = ACES_STORAGE_SCANLINE)) \<and>
       (\<forall>w fn p w'. can_open w fn contents \<and> aces_start_read w fn = Inr (Some p, w')
          \<longrightarrow> (\<exists>pf. objs w' p = Some pf \<and> storage_mode pf = ACES_STORAGE_SCANLINE))) \<and>
    (v = 0x202 \<longrightarrow>
       (\<forall>f. user_file f = contents \<longrightarrow>
          read_header f
          = header_exit (read_attributes
              (f\<lparr>user_file := drop 8 contents, cur_file_pos := cur_file_pos f + 8,
                 storage_mode := ACES_STORAGE_TILED\<rparr>) 0) \<and>
          (\<forall>rc f'. read_header f = Inr (rc, f') \<longrightarrow> storage_mode f' = ACES_STORAGE_TILED)) \<and>
       (\<forall>w fn p w'. can_open w fn contents \<and> aces_start_read w fn = Inr (Some p, w')
          \<longrightarrow> (\<exists>pf. objs w' p = Some pf \<and> storage_mode pf = ACES_STORAGE_TILED))) \<and>
    (v \<noteq> 0x2 \<and> v \<noteq> 0x202 \<longrightarrow>
       (\<forall>f. user_file f = contents \<longrightarrow>
          read_header f
          = Inr (- 1, f\<lparr>user_file := drop 8 contents,
                        cur_file_pos := cur_file_pos f + 8,
                        errors := errors f @ [UnsupportedVersion (given_filename f) v]\<rparr>)) \<and>
       (\<forall>w fn. can_open w fn contents \<longrightarrow>
          (\<exists>w'. aces_start_read w fn = Inr (None, w') \<and>
                sink w' = sink w @ [UnsupportedVersion (take 255 fn) v] \<and>
                objs w' (next_ptr w) = None)))"
proof -
  have accepted: "header_accepted f" if "user_file f = contents" "v = 0x2 \<or> v = 0x202" for f
    using that len magic v by (auto simp: header_accepted_def)
  have start: "header_start f
               = f\<lparr>user_file := drop 8 contents, cur_file_pos := cur_file_pos f + 8,
                   storage_mode := (if v = 0x202 then ACES_STORAGE_TILED
                                    else ACES_STORAGE_SCANLINE)\<rparr>"
    if "user_file f = contents" for f
    using that v by (simp add: header_start_def)
  have mode: "storage_mode f' = (if v = 0x202 then ACES_STORAGE_TILED else ACES_STORAGE_SCANLINE)"
    if "user_file f = contents" "v = 0x2 \<or> v = 0x202" "read_header f = Inr (rc, f')"
    for f rc f'
    using read_header_storage_mode [OF accepted [OF that(1,2)] that(3)] start [OF that(1)]
    by simp
  have handle: "\<exists>pf. objs w' p = Some pf
                  \<and> storage_mode pf = (if v = 0x202 then ACES_STORAGE_TILED
                                        else ACES_STORAGE_SCANLINE)"
    if c: "can_open w fn contents" and sr: "aces_start_read w fn = Inr (Some p, w')"
      and vv: "v = 0x2 \<or> v = 0x202"
    for w fn p w'
  proof -
    obtain rc ret' where rh: "read_header (opened_file w fn contents) = Inr (rc, ret')"
      and ob: "objs w' p = Some ret'"
      using start_read_returns_handle [OF c sr] by blast
    have "user_file (opened_file w fn contents) = contents" by (simp add: opened_file_def)
    then show ?thesis using mode [OF _ vv rh] ob by simp
  qed
  have bad: "read_header f
          = Inr (- 1, f\<lparr>user_file := drop 8 contents,
                        cur_file_pos := cur_file_pos f + 8,
                        errors := errors f @ [UnsupportedVersion (given_filename f) v]\<rparr>)"
    if "user_file f = contents" "v \<noteq> 0x2 \<and> v \<noteq> 0x202" for f
    using that len magic v
    by (simp add: read_header_def readfn_def le32_take8 print_error_def)
  have badopen: "\<exists>w'. aces_start_read w fn = Inr (None, w') \<and>
                sink w' = sink w @ [UnsupportedVersion (take 255 fn) v] \<and>
                objs w' (next_ptr w) = None"
    if c: "can_open w fn contents" and nv: "v \<noteq> 0x2 \<and> v \<noteq> 0x202" for w fn
  proof -
    have u: "user_file (opened_file w fn contents) = contents"
      by (simp add: opened_file_def)
    show ?thesis
      using start_read_header_fails [OF c bad [OF u nv]]
      by (auto simp: opened_file_def alloc_file_data_struct_def)
  qed
  have two: "v = 0x2 \<Longrightarrow> v \<noteq> 0x202" by auto
  show ?thesis
  proof (intro conjI impI allI)
    fix f :: ACES_INTERNAL_FILE_DATA assume "v = 0x2" "user_file f = contents"
    then show "read_header f
          = header_exit (read_attributes
              (f\<lparr>user_file := drop 8 contents, cur_file_pos := cur_file_pos f + 8,
                 storage_mode := ACES_STORAGE_SCANLINE\<rparr>) 0)"
      using read_header_exit [OF accepted [of f]] start [of f] two by simp
  next
    fix f :: ACES_INTERNAL_FILE_DATA and rc f' assume "v = 0x2" "user_file f = contents" "read_header f = Inr (rc, f')"
    then show "storage_mode f' = ACES_STORAGE_SCANLINE"
      using mode [of f rc f'] two by simp
  next
    fix w :: world and fn p w'
    assume "v = 0x2" "can_open w fn contents \<and> aces_start_read w fn = Inr (Some p, w')"
    then show "\<exists>pf. objs w' p = Some pf \<and> storage_mode pf = ACES_STORAGE_SCANLINE"
      using handle [of w fn p w'] two by simp
  next
    fix f :: ACES_INTERNAL_FILE_DATA assume "v = 0x202" "user_file f = contents"
    then show "read_header f
          = header_exit (read_attributes
              (f\<lparr>user_file := drop 8 contents, cur_file_pos := cur_file_pos f + 8,
                 storage_mode := ACES_STORAGE_TILED\<rparr>) 0)"
      using read_header_exit [OF accepted [of f]] start [of f] by simp
  next
    fix f :: ACES_INTERNAL_FILE_DATA and rc f' assume "v = 0x202" "user_file f = contents" "read_header f = Inr (rc, f')"
    then show "storage_mode f' = ACES_STORAGE_TILED"
      using mode [of f rc f'] by simp
  next
    fix w :: world and fn p w'
    assume "v = 0x202" "can_open w fn contents \<and> aces_start_read w fn = Inr (Some p, w')"
    then show "\<exists>pf. objs w' p = Some pf \<and> storage_mode pf = ACES_STORAGE_TILED"
      using handle [of w fn p w'] by simp
  next
    fix f :: ACES_INTERNAL_FILE_DATA assume "v \<noteq> 0x2 \<and> v \<noteq> 0x202" "user_file f = contents"
    then show "read_header f
          = Inr (- 1, f\<lparr>user_file := drop 8 contents,
                        cur_file_pos := cur_file_pos f + 8,
                        errors := errors f @ [UnsupportedVersion (given_filename f) v]\<rparr>)"
      using bad [of f] by simp
  next
    fix w :: world and fn assume "v \<noteq> 0x2 \<and> v \<noteq> 0x202" "can_open w fn contents"
    then show "\<exists>w'. aces_start_read w fn = Inr (None, w') \<and>
                sink w' = sink w @ [UnsupportedVersion (take 255 fn) v] \<and>
                objs w' (next_ptr w) = None"
      using badopen [of w fn] by simp
  qed
qed


text \<open>The theorem of C7 on three files that end after the header words and an empty
  attribute list, with the versions \<open>0x2\<close>, \<open>0x202\<close> and \<open>0x3\<close>.\<close>

theorem version_word_sets_storage_mode_witness:
  "(case read_header (alloc_file_data_struct (exr_magic @ version_scanline @ [CHR 0x00]) 4096) of
      Inl e \<Rightarrow> False
    | Inr (rc, f') \<Rightarrow> storage_mode f' = ACES_STORAGE_SCANLINE) \<and>
   (case read_header (alloc_file_data_struct (exr_magic @ version_tiled @ [CHR 0x00]) 4096) of
      Inl e \<Rightarrow> False
    | Inr (rc, f') \<Rightarrow> storage_mode f' = ACES_STORAGE_TILED) \<and>
   (\<exists>w'. aces_start_read (one_file_world (exr_magic @ version_3 @ [CHR 0x00])) ''a.exr''
           = Inr (None, w') \<and>
         sink w' = [UnsupportedVersion ''a.exr'' 3])"
proof -
  let ?s = "exr_magic @ version_scanline @ [CHR 0x00]"
  let ?t = "exr_magic @ version_tiled @ [CHR 0x00]"
  let ?u = "exr_magic @ version_3 @ [CHR 0x00]"
  let ?fs = "alloc_file_data_struct ?s 4096"
  let ?ft = "alloc_file_data_struct ?t 4096"
  have stop: "\<exists>x. read_attributes
                  (f\<lparr>user_file := [CHR 0x00], cur_file_pos := cur_file_pos f + 8,
                     storage_mode := md\<rparr>) 0 = Inr x" for f md
    using read_attributes_stop [OF read_attribute_sentinel [of _ "[]"], of
        "f\<lparr>user_file := [CHR 0x00], cur_file_pos := cur_file_pos f + 8, storage_mode := md\<rparr>" 0]
    by simp
  have us: "user_file ?fs = ?s" and ut: "user_file ?ft = ?t"
    by (simp_all add: alloc_file_data_struct_def)
  note S = version_word_sets_storage_mode [of ?s 2, simplified drop4_magic le32_magic
      le32_version_scanline, simplified]
  note T = version_word_sets_storage_mode [of ?t "0x202", simplified drop4_magic le32_magic
      le32_version_tiled, simplified]
  note U = version_word_sets_storage_mode [of ?u 3, simplified drop4_magic le32_magic
      le32_version_3, simplified]
  have 1: "case read_header ?fs of Inl e \<Rightarrow> False
           | Inr (rc, f') \<Rightarrow> storage_mode f' = ACES_STORAGE_SCANLINE"
  proof -
    have eq: "read_header ?fs = header_exit (read_attributes
              (?fs\<lparr>user_file := [CHR 0x00], cur_file_pos := cur_file_pos ?fs + 8,
                 storage_mode := ACES_STORAGE_SCANLINE\<rparr>) 0)"
      using S us by blast
    obtain x where "read_header ?fs = header_exit (Inr x)"
      using stop [where f = ?fs and md = ACES_STORAGE_SCANLINE] unfolding eq by auto
    then obtain rc f' where r: "read_header ?fs = Inr (rc, f')"
      using header_exit_Inr [of x] by auto
    then have "storage_mode f' = ACES_STORAGE_SCANLINE" using S us by blast
    then show ?thesis using r by simp
  qed
  have 2: "case read_header ?ft of Inl e \<Rightarrow> False
           | Inr (rc, f') \<Rightarrow> storage_mode f' = ACES_STORAGE_TILED"
  proof -
    have eq: "read_header ?ft = header_exit (read_attributes
              (?ft\<lparr>user_file := [CHR 0x00], cur_file_pos := cur_file_pos ?ft + 8,
                 storage_mode := ACES_STORAGE_TILED\<rparr>) 0)"
      using T ut by blast
    obtain x where "read_header ?ft = header_exit (Inr x)"
      using stop [where f = ?ft and md = ACES_STORAGE_TILED] unfolding eq by auto
    then obtain rc f' where r: "read_header ?ft = Inr (rc, f')"
      using header_exit_Inr [of x] by auto
    then have "storage_mode f' = ACES_STORAGE_TILED" using T ut by blast
    then show ?thesis using r by simp
  qed
  have c: "can_open (one_file_world ?u) ''a.exr'' ?u"
    by (simp add: can_open_def one_file_world_def sizeof_file_data_def exr_magic_def)
  have w: "sink (one_file_world ?u) = []"
    by (simp add: one_file_world_def)
  have 3: "\<exists>w'. aces_start_read (one_file_world ?u) ''a.exr'' = Inr (None, w') \<and>
         sink w' = [UnsupportedVersion ''a.exr'' 3]"
    using U c w by fastforce
  show ?thesis using 1 2 3 by simp
qed

section \<open>The required attributes: claim C2\<close>

lemmas req_masks = REQ_CHANNELS_MASK_def REQ_COMP_MASK_def REQ_DATA_MASK_def REQ_DISP_MASK_def
  REQ_LO_MASK_def REQ_PAR_MASK_def REQ_SCR_WC_MASK_def REQ_SCR_WW_MASK_def REQ_TILES_MASK_def

lemma check_attr_mask_acc:
  "check_attr_mask (f\<lparr>errors := es\<rparr>) v b n
   = (int (length (if v AND b = 0 then [n] else [])),
      f\<lparr>errors := es @ map (MissingRequiredAttribute (given_filename f))
                          (if v AND b = 0 then [n] else [])\<rparr>)"
  by (simp add: check_attr_mask_def print_error_def)

lemma map_snd_filter_concat:
  "map snd (filter (\<lambda>(b, n). P b) xs) = concat (map (\<lambda>(b, n). if P b then [n] else []) xs)"
  by (induction xs) auto

lemma missing_names_concat:
  "missing_names sm m
   = concat (map (\<lambda>(b, n). if m AND b = 0 then [n] else []) (required_attributes sm))"
  unfolding missing_names_def by (rule map_snd_filter_concat)

lemma report_missing_attributes_acc:
  "report_missing_attributes (f\<lparr>errors := es\<rparr>) m
   = (int (length (missing_names (storage_mode f) m)),
      f\<lparr>errors := es @ map (MissingRequiredAttribute (given_filename f))
                          (missing_names (storage_mode f) m)\<rparr>)"
  unfolding report_missing_attributes_def Let_def check_attr_mask_acc prod.case
    missing_names_concat required_attributes_def
  by (cases "storage_mode f = ACES_STORAGE_TILED") (simp_all split del: if_split)

lemma report_missing_attributes_eq:
  "report_missing_attributes f m
   = (int (length (missing_names (storage_mode f) m)),
      f\<lparr>errors := errors f
           @ map (MissingRequiredAttribute (given_filename f)) (missing_names (storage_mode f) m)\<rparr>)"
  using report_missing_attributes_acc [where f = f and es = "errors f" and m = m] by simp

lemma covers_mask_iff:
  fixes m :: "16 word"
  shows "m AND mask k = mask k \<longleftrightarrow> (\<forall>i<k. i < 16 \<longrightarrow> bit m i)"
  by (auto simp: bit_eq_iff bit_simps)

lemma all_less_8: "(\<forall>i<(8::nat). P i) \<longleftrightarrow> P 0 \<and> P 1 \<and> P 2 \<and> P 3 \<and> P 4 \<and> P 5 \<and> P 6 \<and> P 7"
proof
  assume "\<forall>i<8. P i"
  then show "P 0 \<and> P 1 \<and> P 2 \<and> P 3 \<and> P 4 \<and> P 5 \<and> P 6 \<and> P 7" by simp
next
  assume a: "P 0 \<and> P 1 \<and> P 2 \<and> P 3 \<and> P 4 \<and> P 5 \<and> P 6 \<and> P 7"
  show "\<forall>i<8. P i"
  proof (intro allI impI)
    fix i :: nat assume "i < 8"
    then have "i = 0 \<or> i = 1 \<or> i = 2 \<or> i = 3 \<or> i = 4 \<or> i = 5 \<or> i = 6 \<or> i = 7" by linarith
    then show "P i" using a by blast
  qed
qed

lemma all_less_9: "(\<forall>i<(9::nat). P i) \<longleftrightarrow> (\<forall>i<8. P i) \<and> P 8"
proof
  assume "\<forall>i<9. P i"
  then show "(\<forall>i<8. P i) \<and> P 8" by simp
next
  assume a: "(\<forall>i<8. P i) \<and> P 8"
  show "\<forall>i<9. P i"
  proof (intro allI impI)
    fix i :: nat assume "i < 9"
    then have "i < 8 \<or> i = 8" by linarith
    then show "P i" using a by blast
  qed
qed

lemma mask_bit_tests:
  fixes m :: "16 word"
  shows "m AND REQ_CHANNELS_MASK = 0 \<longleftrightarrow> \<not> bit m 0"
    "m AND REQ_COMP_MASK = 0 \<longleftrightarrow> \<not> bit m 1"
    "m AND REQ_DATA_MASK = 0 \<longleftrightarrow> \<not> bit m 2"
    "m AND REQ_DISP_MASK = 0 \<longleftrightarrow> \<not> bit m 3"
    "m AND REQ_LO_MASK = 0 \<longleftrightarrow> \<not> bit m 4"
    "m AND REQ_PAR_MASK = 0 \<longleftrightarrow> \<not> bit m 5"
    "m AND REQ_SCR_WC_MASK = 0 \<longleftrightarrow> \<not> bit m 6"
    "m AND REQ_SCR_WW_MASK = 0 \<longleftrightarrow> \<not> bit m 7"
    "m AND REQ_TILES_MASK = 0 \<longleftrightarrow> \<not> bit m 8"
  using and_exp_eq_0_iff_not_bit [of m 0] and_exp_eq_0_iff_not_bit [of m 1]
    and_exp_eq_0_iff_not_bit [of m 2] and_exp_eq_0_iff_not_bit [of m 3]
    and_exp_eq_0_iff_not_bit [of m 4] and_exp_eq_0_iff_not_bit [of m 5]
    and_exp_eq_0_iff_not_bit [of m 6] and_exp_eq_0_iff_not_bit [of m 7]
    and_exp_eq_0_iff_not_bit [of m 8]
  by (simp_all add: req_masks)

lemma required_mask_mask:
  "required_mask sm = (if sm = ACES_STORAGE_TILED then mask 9 else mask 8)"
  by (simp add: required_mask_def mask_eq_exp_minus_1)

lemma missing_names_empty_iff:
  "missing_names sm m = [] \<longleftrightarrow> m AND required_mask sm = required_mask sm"
proof -
  have 1: "missing_names sm m = [] \<longleftrightarrow> (\<forall>(b, n) \<in> set (required_attributes sm). m AND b \<noteq> 0)"
    by (auto simp: missing_names_def filter_empty_conv)
  have 2: "(\<forall>(b, n) \<in> set (required_attributes sm). m AND b \<noteq> 0)
           \<longleftrightarrow> (\<forall>i<8. bit m i) \<and> (sm = ACES_STORAGE_TILED \<longrightarrow> bit m 8)"
    unfolding required_attributes_def all_less_8
    by (simp add: mask_bit_tests del: One_nat_def) 
  have 3: "m AND required_mask sm = required_mask sm
           \<longleftrightarrow> (\<forall>i<8. bit m i) \<and> (sm = ACES_STORAGE_TILED \<longrightarrow> bit m 8)"
    unfolding required_mask_mask by (simp add: covers_mask_iff all_less_9)
  show ?thesis using 1 2 3 by simp
qed


lemma strcmp_eq_iff:
  "CHR 0x00 \<notin> set a \<Longrightarrow> CHR 0x00 \<notin> set b \<Longrightarrow> strcmp a b = 0 \<longleftrightarrow> a = b"
proof (induction a b rule: strcmp.induct)
  case 1
  show ?case by simp
next
  case (2 y ys)
  then show ?case using of_char_pos [of y] by auto
next
  case (3 x xs)
  then show ?case using of_char_pos [of x] by auto
next
  case (4 x xs y ys)
  have "x \<noteq> y \<Longrightarrow> int (of_char x) \<noteq> int (of_char y)" by simp
  with 4 show ?case by auto
qed

lemma add_attribute_mask:
  assumes "add_attribute f nm a = Inr (b', f')" "CHR 0x00 \<notin> set nm"
  shows "b' = (if nm = ''channels'' then REQ_CHANNELS_MASK
               else if nm = ''compression'' then REQ_COMP_MASK
               else if nm = ''dataWindow'' then REQ_DATA_MASK
               else if nm = ''displayWindow'' then REQ_DISP_MASK
               else if nm = ''lineOrder'' then REQ_LO_MASK
               else if nm = ''pixelAspectRatio'' then REQ_PAR_MASK
               else if nm = ''screenWindowCenter'' then REQ_SCR_WC_MASK
               else if nm = ''screenWindowWidth'' then REQ_SCR_WW_MASK
               else if nm = ''tiles'' \<and> storage_mode f = ACES_STORAGE_TILED then REQ_TILES_MASK
               else 0)"
proof -
  have e: "strcmp nm s = 0 \<longleftrightarrow> nm = s" if "CHR 0x00 \<notin> set s" for s
    using strcmp_eq_iff [OF assms(2) that] .
  have c: "strcmp nm ''channels'' = 0 \<longleftrightarrow> nm = ''channels''"
    "strcmp nm ''compression'' = 0 \<longleftrightarrow> nm = ''compression''"
    "strcmp nm ''dataWindow'' = 0 \<longleftrightarrow> nm = ''dataWindow''"
    "strcmp nm ''displayWindow'' = 0 \<longleftrightarrow> nm = ''displayWindow''"
    "strcmp nm ''lineOrder'' = 0 \<longleftrightarrow> nm = ''lineOrder''"
    "strcmp nm ''pixelAspectRatio'' = 0 \<longleftrightarrow> nm = ''pixelAspectRatio''"
    "strcmp nm ''screenWindowCenter'' = 0 \<longleftrightarrow> nm = ''screenWindowCenter''"
    "strcmp nm ''screenWindowWidth'' = 0 \<longleftrightarrow> nm = ''screenWindowWidth''"
    "strcmp nm ''tiles'' = 0 \<longleftrightarrow> nm = ''tiles''"
    by (rule e, simp)+
  show ?thesis
    using assms(1) unfolding add_attribute_def c
    by (auto split: if_splits)
qed


lemma add_attribute_bit:
  assumes "add_attribute f nm a = Inr (b', f')" "CHR 0x00 \<notin> set nm"
    and "(b, n) \<in> set (required_attributes (storage_mode f))"
  shows "b' AND b \<noteq> 0 \<longleftrightarrow> nm = n"
proof -
  note m = add_attribute_mask [OF assms(1,2)]
  have c1: "b' AND REQ_CHANNELS_MASK \<noteq> 0 \<longleftrightarrow> nm = ''channels''"
    unfolding m by (simp add: req_masks)
  have c2: "b' AND REQ_COMP_MASK \<noteq> 0 \<longleftrightarrow> nm = ''compression''"
    unfolding m by (simp add: req_masks)
  have c3: "b' AND REQ_DATA_MASK \<noteq> 0 \<longleftrightarrow> nm = ''dataWindow''"
    unfolding m by (simp add: req_masks)
  have c4: "b' AND REQ_DISP_MASK \<noteq> 0 \<longleftrightarrow> nm = ''displayWindow''"
    unfolding m by (simp add: req_masks)
  have c5: "b' AND REQ_LO_MASK \<noteq> 0 \<longleftrightarrow> nm = ''lineOrder''"
    unfolding m by (simp add: req_masks)
  have c6: "b' AND REQ_PAR_MASK \<noteq> 0 \<longleftrightarrow> nm = ''pixelAspectRatio''"
    unfolding m by (simp add: req_masks)
  have c7: "b' AND REQ_SCR_WC_MASK \<noteq> 0 \<longleftrightarrow> nm = ''screenWindowCenter''"
    unfolding m by (simp add: req_masks)
  have c8: "b' AND REQ_SCR_WW_MASK \<noteq> 0 \<longleftrightarrow> nm = ''screenWindowWidth''"
    unfolding m by (simp add: req_masks)
  have c9: "b' AND REQ_TILES_MASK \<noteq> 0 \<longleftrightarrow> nm = ''tiles''"
    if "storage_mode f = ACES_STORAGE_TILED"
    unfolding m using that by (simp add: req_masks)
  have "b = REQ_CHANNELS_MASK \<and> n = ''channels'' \<or>
        b = REQ_COMP_MASK \<and> n = ''compression'' \<or>
        b = REQ_DATA_MASK \<and> n = ''dataWindow'' \<or>
        b = REQ_DISP_MASK \<and> n = ''displayWindow'' \<or>
        b = REQ_LO_MASK \<and> n = ''lineOrder'' \<or>
        b = REQ_PAR_MASK \<and> n = ''pixelAspectRatio'' \<or>
        b = REQ_SCR_WC_MASK \<and> n = ''screenWindowCenter'' \<or>
        b = REQ_SCR_WW_MASK \<and> n = ''screenWindowWidth'' \<or>
        storage_mode f = ACES_STORAGE_TILED \<and> b = REQ_TILES_MASK \<and> n = ''tiles''"
    using assms(3) unfolding required_attributes_def by (auto split: if_splits)
  then show ?thesis
  proof (elim disjE conjE, goal_cases)
    case 1 show ?case unfolding 1 by (rule c1)
  next
    case 2 show ?case unfolding 2 by (rule c2)
  next
    case 3 show ?case unfolding 3 by (rule c3)
  next
    case 4 show ?case unfolding 4 by (rule c4)
  next
    case 5 show ?case unfolding 5 by (rule c5)
  next
    case 6 show ?case unfolding 6 by (rule c6)
  next
    case 7 show ?case unfolding 7 by (rule c7)
  next
    case 8 show ?case unfolding 8 by (rule c8)
  next
    case 9 show ?case unfolding 9(2,3) by (rule c9 [OF 9(1)])
  qed
qed

lemma read_attribute_name_nul_free:
  assumes "read_attribute f = (rda, nm, a, f1)"
  shows "CHR 0x00 \<notin> set nm"
proof -
  have "fst (snd (read_attribute f)) = fst (snd (read_string f ''attribute''))"
    by (simp add: read_attribute_def Let_def split_beta)
  then have "read_string f ''attribute''
             = (fst (read_string f ''attribute''), nm, snd (snd (read_string f ''attribute'')))"
    using assms by (simp add: prod_eq_iff)
  then show ?thesis by (rule read_string_nul_free)
qed

lemma attribute_names_stop:
  "read_attribute f = (rda, nm, a, f') \<Longrightarrow> rda \<noteq> 1 \<Longrightarrow> attribute_names f = []"
  by (subst attribute_names.simps) simp

lemma attribute_names_step:
  "read_attribute f = (1, nm, a, f1) \<Longrightarrow> add_attribute f1 nm a = Inr (b, f2)
   \<Longrightarrow> attribute_names f = nm # attribute_names f2"
  by (subst attribute_names.simps) simp

lemma or_and_nonzero:
  fixes x :: "16 word"
  shows "(x OR y) AND b \<noteq> 0 \<longleftrightarrow> x AND b \<noteq> 0 \<or> y AND b \<noteq> 0"
  unfolding bit.conj_disj_distrib2 or_eq_0_iff by blast

lemma read_attributes_mask:
  assumes "read_attributes f m0 = Inr (rda, m, f4)"
    and "(b, n) \<in> set (required_attributes (storage_mode f))"
  shows "m AND b \<noteq> 0 \<longleftrightarrow> m0 AND b \<noteq> 0 \<or> n \<in> set (attribute_names f)"
  using assms
proof (induction "length (user_file f)" arbitrary: f m0 rule: less_induct)
  case less
  obtain r nm a f1 where ra: "read_attribute f = (r, nm, a, f1)"
    by (metis prod_cases4)
  show ?case
  proof (cases "r = 1")
    case False
    have "read_attributes f m0 = Inr (r, m0, f1)"
      by (rule read_attributes_stop [OF ra False])
    moreover have "attribute_names f = []"
      by (rule attribute_names_stop [OF ra False])
    ultimately show ?thesis using less.prems by simp
  next
    case True
    note ra1 = ra [unfolded True]
    show ?thesis
    proof (cases "add_attribute f1 nm a")
      case (Inl e)
      then have "read_attributes f m0 = Inl e"
        using ra True by (subst read_attributes.simps) simp
      then show ?thesis using less.prems by simp
    next
      case (Inr p)
      obtain b' f2 where aa: "add_attribute f1 nm a = Inr (b', f2)"
        using Inr by (cases p) auto
      have step: "read_attributes f m0 = read_attributes f2 (m0 OR b')"
        by (rule read_attributes_step [OF ra1 aa])
      have names: "attribute_names f = nm # attribute_names f2"
        by (rule attribute_names_step [OF ra1 aa])
      have len: "length (user_file f2) < length (user_file f)"
        using read_attribute_consumes [OF ra True] add_attribute_user_file [OF aa] by simp
      have sm1: "storage_mode f1 = storage_mode f"
        by (rule read_attribute_storage_mode [OF ra])
      have sm2: "storage_mode f2 = storage_mode f"
        using add_attribute_storage_mode [OF aa] sm1 by simp
      have nf: "CHR 0x00 \<notin> set nm"
        by (rule read_attribute_name_nul_free [OF ra])
      have bt: "b' AND b \<noteq> 0 \<longleftrightarrow> nm = n"
        by (rule add_attribute_bit [OF aa nf]) (simp add: sm1 less.prems)
      have "m AND b \<noteq> 0 \<longleftrightarrow> (m0 OR b') AND b \<noteq> 0 \<or> n \<in> set (attribute_names f2)"
        using less.prems step sm2 by (intro less.hyps [OF len]) simp_all
      then show ?thesis
        unfolding or_and_nonzero names using bt by auto
    qed
  qed
qed

lemma missing_names_seen:
  assumes "read_attributes f 0 = Inr (rda, m, f4)"
  shows "missing_names (storage_mode f) m
         = filter (\<lambda>n. n \<notin> set (attribute_names f)) (required_names (storage_mode f))"
proof -
  have "\<forall>x \<in> set (required_attributes (storage_mode f)).
          (m AND fst x = 0) = (snd x \<notin> set (attribute_names f))"
  proof
    fix x assume "x \<in> set (required_attributes (storage_mode f))"
    then have "(fst x, snd x) \<in> set (required_attributes (storage_mode f))" by simp
    from read_attributes_mask [OF assms this]
    show "(m AND fst x = 0) = (snd x \<notin> set (attribute_names f))" by auto
  qed
  then have "filter (\<lambda>x. m AND fst x = 0) (required_attributes (storage_mode f))
             = filter (\<lambda>x. snd x \<notin> set (attribute_names f)) (required_attributes (storage_mode f))"
    by (intro filter_cong refl) simp
  then show ?thesis
    unfolding missing_names_def required_names_def filter_map comp_def case_prod_beta
    by (rule arg_cong)
qed

lemma read_header_not_accepted:
  "\<not> header_accepted f \<Longrightarrow> \<exists>f'. read_header f = Inr (- 1, f')"
  by (auto simp: read_header_def header_accepted_def readfn_def Let_def le32_take8 min_def)


lemma read_header_validation:
  assumes acc: "header_accepted f0"
    and loop: "read_attributes (header_start f0) 0 = Inr (rda, m, f4)" and rda: "\<not> rda < 0"
  shows "read_header f0
         = Inr (if missing_names (storage_mode (header_start f0)) m = [] then 0 else - 1,
                f4\<lparr>errors := errors f4 @ map (MissingRequiredAttribute (given_filename f4))
                                           (missing_names (storage_mode (header_start f0)) m)\<rparr>)"
proof -
  have sm: "storage_mode f4 = storage_mode (header_start f0)"
    by (rule read_attributes_storage_mode [OF loop])
  show ?thesis
    unfolding read_header_exit [OF acc] loop header_exit_def
    using rda by (simp add: report_missing_attributes_eq sm)
qed

subsection \<open>Reading the records of a concrete header\<close>

lemma same_context_refl: "same_context f f"
  by (simp add: same_context_def)

lemma same_context_trans: "same_context f g \<Longrightarrow> same_context g h \<Longrightarrow> same_context f h"
  by (simp add: same_context_def)

lemma read_attribute_fixed:
  assumes uf: "user_file f = attr_record_head nm tname sz4 @ data @ rest"
    and nm: "nm \<noteq> []" "cstring nm" and tn: "cstring tname" and sz: "length sz4 = 4"
    and ns: "native_size (attr_name_to_type tname) = Some n"
    and dn: "sint (le32 sz4) = int n" "length data = n"
  shows "\<exists>a f'. read_attribute f = (1, nm, a, f') \<and> user_file f' = rest \<and> same_context f f'"
proof -
  let ?g = "f\<lparr>user_file := data @ rest,
              cur_file_pos := cur_file_pos f + length nm + length tname + 6\<rparr>"
  have st: "size_t_of_int32 (le32 sz4) = n"
    using dn(1) by (simp add: size_t_of_int32_nonneg)
  have rd: "attr_check_size_and_read ?g (le32 sz4) n tname
            = (1, take n (user_file ?g),
               ?g\<lparr>user_file := drop n (user_file ?g), cur_file_pos := cur_file_pos ?g + n\<rparr>)"
    using dn(2) by (intro attr_check_size_and_read_ok [OF st]) simp
  show ?thesis
    unfolding read_attribute_record [OF uf nm tn sz]
    using dn(2) by (simp add: read_attribute_payload_def ns rd same_context_def)
qed

lemma attr_name_to_type_chlist: "attr_name_to_type ''chlist'' = ACES_ATTR_CHLIST"
  by (simp add: attr_name_to_type_def the_predefined_attr_typenames_def attribute_type_values_def)

lemma attr_name_to_type_float: "attr_name_to_type ''float'' = ACES_ATTR_FLOAT"
  by (simp add: attr_name_to_type_def the_predefined_attr_typenames_def attribute_type_values_def)

lemma attr_name_to_type_lineOrder: "attr_name_to_type ''lineOrder'' = ACES_ATTR_LINEORDER"
  by (simp add: attr_name_to_type_def the_predefined_attr_typenames_def attribute_type_values_def)

lemma attr_name_to_type_v2f: "attr_name_to_type ''v2f'' = ACES_ATTR_V2F"
  by (simp add: attr_name_to_type_def the_predefined_attr_typenames_def attribute_type_values_def)

lemma read_attribute_chlist:
  assumes uf: "user_file f = attr_record_head nm ''chlist'' sz4 @ chlist_payload chans @ rest"
    and nm: "nm \<noteq> []" "cstring nm" and sz: "length sz4 = 4"
    and ch: "chans \<noteq> []" "\<forall>c \<in> set chans. wellformed_channel c"
    and mem: "malloc_ok f (max sizeof_tmp_ch_list (length chans * sizeof_chlist_entry))"
  shows "\<exists>a f'. read_attribute f = (1, nm, a, f') \<and> user_file f' = rest \<and> same_context f f'"
proof -
  let ?es = "foldl (\<lambda>l c. insert_channel (channel_decoded c) l) [] chans"
  have res: "attr_read_chlist (f\<lparr>user_file := chlist_payload chans @ rest, cur_file_pos := p\<rparr>)
               (le32 sz4)
             = (1, \<lparr>num_channels = int (length chans), entries = Some ?es\<rparr>,
                f\<lparr>user_file := rest, cur_file_pos := p + length (chlist_payload chans)\<rparr>)" for p
  proof -
    let ?g = "f\<lparr>user_file := chlist_payload chans @ rest, cur_file_pos := p\<rparr>"
    let ?g' = "?g\<lparr>user_file := rest,
                 cur_file_pos := cur_file_pos ?g + length (chlist_payload chans)\<rparr>"
    have m: "malloc_ok ?g sizeof_tmp_ch_list" "malloc_ok ?g' (length chans * sizeof_chlist_entry)"
      using mem by (simp_all add: malloc_ok_def)
    have loop: "chlist_loop ?g [] 0 = (1, ?es, int (length chans), ?g')"
      using chlist_loop_payload [OF ch(2) _ m(1), of rest "[]" 0] by simp
    show ?thesis
      unfolding attr_read_chlist_def loop Let_def prod.case
      using ch(1) m(2) by (simp add: length_foldl_insert_channel)
  qed
  have tn: "cstring ''chlist''" by (simp add: cstring_def)
  show ?thesis
    unfolding read_attribute_record [OF uf nm tn sz]
    by (simp add: read_attribute_payload_def attr_name_to_type_chlist res same_context_def)
qed

lemma add_attribute_required:
  assumes "nm \<in> set (required_names (storage_mode f))"
  shows "\<exists>b f'. add_attribute f nm a = Inr (b, f') \<and> user_file f' = user_file f \<and> same_context f f'"
proof -
  have "nm = ''channels'' \<or> nm = ''compression'' \<or> nm = ''dataWindow'' \<or> nm = ''displayWindow'' \<or>
        nm = ''lineOrder'' \<or> nm = ''pixelAspectRatio'' \<or> nm = ''screenWindowCenter'' \<or>
        nm = ''screenWindowWidth'' \<or> nm = ''tiles'' \<and> storage_mode f = ACES_STORAGE_TILED"
    using assms unfolding required_names_def required_attributes_def
    by (auto split: if_splits)
  then show ?thesis
    by (elim disjE conjE) (simp_all add: add_attribute_def same_context_def)
qed

lemma required_loop_step:
  assumes ra: "\<exists>a f1. read_attribute f = (1, nm, a, f1) \<and> user_file f1 = rest \<and> same_context f f1"
    and rq: "nm \<in> set (required_names (storage_mode f))"
  shows "\<exists>b f2. read_attributes f m = read_attributes f2 (m OR b) \<and>
           attribute_names f = nm # attribute_names f2 \<and> user_file f2 = rest \<and> same_context f f2"
proof -
  obtain a f1 where r: "read_attribute f = (1, nm, a, f1)" and u: "user_file f1 = rest"
    and c: "same_context f f1"
    using ra by blast
  have "nm \<in> set (required_names (storage_mode f1))"
    using rq c by (simp add: same_context_def)
  then obtain b f2 where aa: "add_attribute f1 nm a = Inr (b, f2)"
    and u2: "user_file f2 = user_file f1" and c2: "same_context f1 f2"
    using add_attribute_required [of nm f1 a] by blast
  show ?thesis
    using read_attributes_step [OF r aa, of m] attribute_names_step [OF r aa] u u2
      same_context_trans [OF c c2]
    by blast
qed


lemma required_fixed_step:
  assumes "user_file f = attr_record_head nm tname sz4 @ data @ rest"
    and "nm \<noteq> []" "cstring nm" "cstring tname" "length sz4 = 4"
    and "native_size (attr_name_to_type tname) = Some n"
    and "sint (le32 sz4) = int n" "length data = n"
    and "nm \<in> set (required_names (storage_mode f))"
  shows "\<exists>b f2. read_attributes f m = read_attributes f2 (m OR b) \<and>
           attribute_names f = nm # attribute_names f2 \<and> user_file f2 = rest \<and> same_context f f2"
  by (rule required_loop_step [OF read_attribute_fixed [OF assms(1-8)] assms(9)])

lemma required_chlist_step:
  assumes "user_file f = attr_record_head nm ''chlist'' sz4 @ chlist_payload chans @ rest"
    and "nm \<noteq> []" "cstring nm" "length sz4 = 4"
    and "chans \<noteq> []" "\<forall>c \<in> set chans. wellformed_channel c"
    and "malloc_ok f (max sizeof_tmp_ch_list (length chans * sizeof_chlist_entry))"
    and "nm \<in> set (required_names (storage_mode f))"
  shows "\<exists>b f2. read_attributes f m = read_attributes f2 (m OR b) \<and>
           attribute_names f = nm # attribute_names f2 \<and> user_file f2 = rest \<and> same_context f f2"
  by (rule required_loop_step [OF read_attribute_chlist [OF assms(1-7)] assms(8)])

lemma eight_names_required:
  "''channels'' \<in> set (required_names sm)" "''compression'' \<in> set (required_names sm)"
  "''dataWindow'' \<in> set (required_names sm)" "''displayWindow'' \<in> set (required_names sm)"
  "''lineOrder'' \<in> set (required_names sm)" "''pixelAspectRatio'' \<in> set (required_names sm)"
  "''screenWindowCenter'' \<in> set (required_names sm)"
  "''screenWindowWidth'' \<in> set (required_names sm)"
  by (simp_all add: required_names_def required_attributes_def)

lemmas attr_sizes = size_1_def size_4_def size_8_def size_16_def size_73_def
  window_2x2_def float_one_def le32_def le_nat_def cstring_def

lemmas attr_types = attr_name_to_type_compression attr_name_to_type_box2i
  attr_name_to_type_lineOrder attr_name_to_type_float attr_name_to_type_v2f

lemma eight_required_attributes_read:
  assumes uf: "user_file f = eight_required_attributes" and mem: "192 \<le> malloc_limit f"
  shows "\<exists>m f4. read_attributes f 0 = Inr (0, m, f4) \<and> same_context f f4 \<and>
           attribute_names f = [''channels'', ''compression'', ''dataWindow'', ''displayWindow'',
             ''lineOrder'', ''pixelAspectRatio'', ''screenWindowCenter'', ''screenWindowWidth'']"
proof -
  let ?r1 = "attr_record_head ''compression'' ''compression'' size_1 @ [CHR 0x00]
       @ attr_record_head ''dataWindow'' ''box2i'' size_16 @ window_2x2
       @ attr_record_head ''displayWindow'' ''box2i'' size_16 @ window_2x2
       @ attr_record_head ''lineOrder'' ''lineOrder'' size_1 @ [CHR 0x00]
       @ attr_record_head ''pixelAspectRatio'' ''float'' size_4 @ float_one
       @ attr_record_head ''screenWindowCenter'' ''v2f'' size_8 @ replicate 8 (CHR 0x00)
       @ attr_record_head ''screenWindowWidth'' ''float'' size_4 @ float_one
       @ [CHR 0x00]"
  let ?r2 = "attr_record_head ''dataWindow'' ''box2i'' size_16 @ window_2x2
       @ attr_record_head ''displayWindow'' ''box2i'' size_16 @ window_2x2
       @ attr_record_head ''lineOrder'' ''lineOrder'' size_1 @ [CHR 0x00]
       @ attr_record_head ''pixelAspectRatio'' ''float'' size_4 @ float_one
       @ attr_record_head ''screenWindowCenter'' ''v2f'' size_8 @ replicate 8 (CHR 0x00)
       @ attr_record_head ''screenWindowWidth'' ''float'' size_4 @ float_one
       @ [CHR 0x00]"
  let ?r3 = "attr_record_head ''displayWindow'' ''box2i'' size_16 @ window_2x2
       @ attr_record_head ''lineOrder'' ''lineOrder'' size_1 @ [CHR 0x00]
       @ attr_record_head ''pixelAspectRatio'' ''float'' size_4 @ float_one
       @ attr_record_head ''screenWindowCenter'' ''v2f'' size_8 @ replicate 8 (CHR 0x00)
       @ attr_record_head ''screenWindowWidth'' ''float'' size_4 @ float_one
       @ [CHR 0x00]"
  let ?r4 = "attr_record_head ''lineOrder'' ''lineOrder'' size_1 @ [CHR 0x00]
       @ attr_record_head ''pixelAspectRatio'' ''float'' size_4 @ float_one
       @ attr_record_head ''screenWindowCenter'' ''v2f'' size_8 @ replicate 8 (CHR 0x00)
       @ attr_record_head ''screenWindowWidth'' ''float'' size_4 @ float_one
       @ [CHR 0x00]"
  let ?r5 = "attr_record_head ''pixelAspectRatio'' ''float'' size_4 @ float_one
       @ attr_record_head ''screenWindowCenter'' ''v2f'' size_8 @ replicate 8 (CHR 0x00)
       @ attr_record_head ''screenWindowWidth'' ''float'' size_4 @ float_one
       @ [CHR 0x00]"
  let ?r6 = "attr_record_head ''screenWindowCenter'' ''v2f'' size_8 @ replicate 8 (CHR 0x00)
       @ attr_record_head ''screenWindowWidth'' ''float'' size_4 @ float_one
       @ [CHR 0x00]"
  let ?r7 = "attr_record_head ''screenWindowWidth'' ''float'' size_4 @ float_one
       @ [CHR 0x00]"
  let ?r8 = "[CHR 0x00]"
  have u0: "user_file f = attr_record_head ''channels'' ''chlist'' size_73
                @ chlist_payload grba_channels @ ?r1"
    unfolding uf eight_required_attributes_def by simp
  have "\<exists>b g. read_attributes f 0 = read_attributes g (0 OR b) \<and>
          attribute_names f = ''channels'' # attribute_names g \<and> user_file g = ?r1 \<and> same_context f g"
    using mem
    by (intro required_chlist_step [OF u0] eight_names_required)
      (simp_all add: cstring_def size_73_def grba_channels_def wellformed_channel_def half_1x1_def
        malloc_ok_def sizeof_tmp_ch_list_def sizeof_chlist_entry_def)
  then obtain m1 f1 where l1: "read_attributes f 0 = read_attributes f1 m1"
    and n1: "attribute_names f = ''channels'' # attribute_names f1"
    and u1: "user_file f1 = ?r1" and c1: "same_context f f1"
    by blast
  have "\<exists>b g. read_attributes f1 m1 = read_attributes g (m1 OR b) \<and>
          attribute_names f1 = ''compression'' # attribute_names g \<and> user_file g = ?r2 \<and> same_context f1 g"
    by (rule required_fixed_step [where tname = "''compression''" and ?sz4.0 = size_1 and data = "[CHR 0x00]" and n = 1])
      (simp_all add: u1 attr_sizes attr_types eight_names_required)
  then obtain m2 f2 where l2: "read_attributes f1 m1 = read_attributes f2 m2"
    and n2: "attribute_names f1 = ''compression'' # attribute_names f2"
    and u2: "user_file f2 = ?r2" and c2: "same_context f1 f2"
    by blast
  have "\<exists>b g. read_attributes f2 m2 = read_attributes g (m2 OR b) \<and>
          attribute_names f2 = ''dataWindow'' # attribute_names g \<and> user_file g = ?r3 \<and> same_context f2 g"
    by (rule required_fixed_step [where tname = "''box2i''" and ?sz4.0 = size_16 and data = "window_2x2" and n = 16])
      (simp_all add: u2 attr_sizes attr_types eight_names_required)
  then obtain m3 f3 where l3: "read_attributes f2 m2 = read_attributes f3 m3"
    and n3: "attribute_names f2 = ''dataWindow'' # attribute_names f3"
    and u3: "user_file f3 = ?r3" and c3: "same_context f2 f3"
    by blast
  have "\<exists>b g. read_attributes f3 m3 = read_attributes g (m3 OR b) \<and>
          attribute_names f3 = ''displayWindow'' # attribute_names g \<and> user_file g = ?r4 \<and> same_context f3 g"
    by (rule required_fixed_step [where tname = "''box2i''" and ?sz4.0 = size_16 and data = "window_2x2" and n = 16])
      (simp_all add: u3 attr_sizes attr_types eight_names_required)
  then obtain m4 f4 where l4: "read_attributes f3 m3 = read_attributes f4 m4"
    and n4: "attribute_names f3 = ''displayWindow'' # attribute_names f4"
    and u4: "user_file f4 = ?r4" and c4: "same_context f3 f4"
    by blast
  have "\<exists>b g. read_attributes f4 m4 = read_attributes g (m4 OR b) \<and>
          attribute_names f4 = ''lineOrder'' # attribute_names g \<and> user_file g = ?r5 \<and> same_context f4 g"
    by (rule required_fixed_step [where tname = "''lineOrder''" and ?sz4.0 = size_1 and data = "[CHR 0x00]" and n = 1])
      (simp_all add: u4 attr_sizes attr_types eight_names_required)
  then obtain m5 f5 where l5: "read_attributes f4 m4 = read_attributes f5 m5"
    and n5: "attribute_names f4 = ''lineOrder'' # attribute_names f5"
    and u5: "user_file f5 = ?r5" and c5: "same_context f4 f5"
    by blast
  have "\<exists>b g. read_attributes f5 m5 = read_attributes g (m5 OR b) \<and>
          attribute_names f5 = ''pixelAspectRatio'' # attribute_names g \<and> user_file g = ?r6 \<and> same_context f5 g"
    by (rule required_fixed_step [where tname = "''float''" and ?sz4.0 = size_4 and data = "float_one" and n = 4])
      (simp_all add: u5 attr_sizes attr_types eight_names_required)
  then obtain m6 f6 where l6: "read_attributes f5 m5 = read_attributes f6 m6"
    and n6: "attribute_names f5 = ''pixelAspectRatio'' # attribute_names f6"
    and u6: "user_file f6 = ?r6" and c6: "same_context f5 f6"
    by blast
  have "\<exists>b g. read_attributes f6 m6 = read_attributes g (m6 OR b) \<and>
          attribute_names f6 = ''screenWindowCenter'' # attribute_names g \<and> user_file g = ?r7 \<and> same_context f6 g"
    by (rule required_fixed_step [where tname = "''v2f''" and ?sz4.0 = size_8 and data = "replicate 8 (CHR 0x00)" and n = 8])
      (simp_all add: u6 attr_sizes attr_types eight_names_required)
  then obtain m7 f7 where l7: "read_attributes f6 m6 = read_attributes f7 m7"
    and n7: "attribute_names f6 = ''screenWindowCenter'' # attribute_names f7"
    and u7: "user_file f7 = ?r7" and c7: "same_context f6 f7"
    by blast
  have "\<exists>b g. read_attributes f7 m7 = read_attributes g (m7 OR b) \<and>
          attribute_names f7 = ''screenWindowWidth'' # attribute_names g \<and> user_file g = ?r8 \<and> same_context f7 g"
    by (rule required_fixed_step [where tname = "''float''" and ?sz4.0 = size_4 and data = "float_one" and n = 4])
      (simp_all add: u7 attr_sizes attr_types eight_names_required)
  then obtain m8 f8 where l8: "read_attributes f7 m7 = read_attributes f8 m8"
    and n8: "attribute_names f7 = ''screenWindowWidth'' # attribute_names f8"
    and u8: "user_file f8 = ?r8" and c8: "same_context f7 f8"
    by blast
  let ?g = "f8\<lparr>user_file := [], cur_file_pos := cur_file_pos f8 + 1\<rparr>"
  have ra: "read_attribute f8
            = (0, [], \<lparr>type_name = None, type = ACES_ATTR_UNKNOWN, payload = U_zero\<rparr>, ?g)"
    by (rule read_attribute_sentinel [OF u8])
  have l9: "read_attributes f8 m8 = Inr (0, m8, ?g)"
    by (rule read_attributes_stop [OF ra]) simp
  have n9: "attribute_names f8 = []"
    by (rule attribute_names_stop [OF ra]) simp
  have "same_context f ?g"
    using c1 c2 c3 c4 c5 c6 c7 c8 by (simp add: same_context_def)
  moreover have "read_attributes f 0 = Inr (0, m8, ?g)"
    unfolding l1 l2 l3 l4 l5 l6 l7 l8 by (rule l9)
  moreover have "attribute_names f = [''channels'', ''compression'', ''dataWindow'',
      ''displayWindow'', ''lineOrder'', ''pixelAspectRatio'', ''screenWindowCenter'',
      ''screenWindowWidth'']"
    unfolding n1 n2 n3 n4 n5 n6 n7 n8 n9 by (rule refl)
  ultimately show ?thesis by blast
qed


lemma header_accepted_tiled:
  "user_file f = exr_magic @ version_tiled @ bs \<Longrightarrow> header_accepted f"
  using le32_version_tiled [of bs]
  by (simp add: header_accepted_def le32_magic) (simp add: exr_magic_def version_tiled_def)

lemma header_start_tiled:
  "user_file f = exr_magic @ version_tiled @ bs
   \<Longrightarrow> header_start f = f\<lparr>user_file := bs, cur_file_pos := cur_file_pos f + 8,
                            storage_mode := ACES_STORAGE_TILED\<rparr>"
  using le32_version_tiled [of bs]
  by (simp add: header_start_def) (simp add: exr_magic_def version_tiled_def)

lemma missing_of_eight:
  "filter (\<lambda>n. n \<notin> set [''channels'', ''compression'', ''dataWindow'', ''displayWindow'',
             ''lineOrder'', ''pixelAspectRatio'', ''screenWindowCenter'', ''screenWindowWidth''])
     (required_names sm)
   = (if sm = ACES_STORAGE_TILED then [''tiles''] else [])"
  by (simp add: required_names_def required_attributes_def)

text \<open>
  Claim C2. \<open>read_header\<close> returns 0 only for a header whose magic and version are
  accepted and in which an attribute of every required name has been read: channels,
  compression, dataWindow, displayWindow, lineOrder, pixelAspectRatio, screenWindowCenter
  and screenWindowWidth, and tiles as well exactly when the storage mode is tiled; the
  mask of the loop then covers all the required bits. And whenever the loop ends without
  an error, the result is decided by the required names that were not read: with none
  missing \<open>read_header\<close> returns 0 and prints nothing, otherwise it returns \<open>-1\<close> and
  prints one missing-attribute message for each missing name, in the order of the checks,
  and no other message. The names missing are those whose bit is clear in the mask.
\<close>

theorem header_succeeds_only_with_required_attributes:
  "(read_header f0 = Inr (0, f') \<longrightarrow>
      header_accepted f0 \<and>
      (\<forall>n \<in> set (required_names (storage_mode f')). n \<in> set (attribute_names (header_start f0))) \<and>
      (\<exists>rda m f4. read_attributes (header_start f0) 0 = Inr (rda, m, f4) \<and>
         m AND required_mask (storage_mode f') = required_mask (storage_mode f')))
   \<and> (header_accepted f0 \<and> read_attributes (header_start f0) 0 = Inr (rda, m, f4) \<and> \<not> rda < 0 \<longrightarrow>
        (let sm = storage_mode (header_start f0);
             missing = filter (\<lambda>n. n \<notin> set (attribute_names (header_start f0))) (required_names sm)
         in read_header f0
              = Inr (if missing = [] then 0 else - 1,
                     f4\<lparr>errors := errors f4
                          @ map (MissingRequiredAttribute (given_filename f4)) missing\<rparr>) \<and>
            missing = missing_names sm m \<and>
            (missing = [] \<longleftrightarrow> m AND required_mask sm = required_mask sm)))"
proof (intro conjI impI)
  assume ok: "read_header f0 = Inr (0, f')"
  show acc: "header_accepted f0"
    using read_header_not_accepted [of f0] ok by auto
  let ?sm = "storage_mode (header_start f0)"
  have sm: "storage_mode f' = ?sm"
    by (rule read_header_storage_mode [OF acc ok])
  obtain r k g where loop: "read_attributes (header_start f0) 0 = Inr (r, k, g)"
    using ok unfolding read_header_exit [OF acc] header_exit_def
    by (cases "read_attributes (header_start f0) 0") auto
  have r: "\<not> r < 0"
    using ok unfolding read_header_exit [OF acc] header_exit_def loop by auto
  have none: "missing_names ?sm k = []"
    using ok unfolding read_header_validation [OF acc loop r] by (simp split: if_splits)
  then have "filter (\<lambda>n. n \<notin> set (attribute_names (header_start f0))) (required_names ?sm) = []"
    unfolding missing_names_seen [OF loop] .
  then show "\<forall>n \<in> set (required_names (storage_mode f')). n \<in> set (attribute_names (header_start f0))"
    unfolding sm by (simp add: filter_empty_conv)
  have "k AND required_mask ?sm = required_mask ?sm"
    using none by (simp add: missing_names_empty_iff)
  then show "\<exists>rda m f4. read_attributes (header_start f0) 0 = Inr (rda, m, f4) \<and>
         m AND required_mask (storage_mode f') = required_mask (storage_mode f')"
    unfolding sm using loop by blast
next
  assume h: "header_accepted f0 \<and> read_attributes (header_start f0) 0 = Inr (rda, m, f4) \<and> \<not> rda < 0"
  then have acc: "header_accepted f0"
    and loop: "read_attributes (header_start f0) 0 = Inr (rda, m, f4)" and r: "\<not> rda < 0"
    by simp_all
  show "let sm = storage_mode (header_start f0);
             missing = filter (\<lambda>n. n \<notin> set (attribute_names (header_start f0))) (required_names sm)
         in read_header f0
              = Inr (if missing = [] then 0 else - 1,
                     f4\<lparr>errors := errors f4
                          @ map (MissingRequiredAttribute (given_filename f4)) missing\<rparr>) \<and>
            missing = missing_names sm m \<and>
            (missing = [] \<longleftrightarrow> m AND required_mask sm = required_mask sm)"
    unfolding Let_def missing_names_seen [OF loop, symmetric]
    using read_header_validation [OF acc loop r]
    by (simp add: missing_names_empty_iff)
qed

text \<open>The theorem of C2 on three files: the eight attributes behind a scanline version
  word (success, no message, the mask covers \<open>0xFF\<close>), the same attributes behind a tiled
  version word (one message, for tiles), and a header without attributes (eight messages).\<close>

theorem header_succeeds_only_with_required_attributes_witness:
  "(\<exists>f'. read_header complete_scanline_file = Inr (0, f') \<and> errors f' = []) \<and>
   (\<exists>rda m f4. read_attributes (header_start complete_scanline_file) 0 = Inr (rda, m, f4) \<and>
      m AND 0xFF = 0xFF) \<and>
   (\<exists>f'. read_header tiled_without_tiles_file = Inr (- 1, f') \<and>
      errors f' = [MissingRequiredAttribute [] ''tiles'']) \<and>
   (\<exists>f'. read_header no_attributes_file = Inr (- 1, f') \<and>
      errors f' = map (MissingRequiredAttribute [])
        [''channels'', ''compression'', ''dataWindow'', ''displayWindow'', ''lineOrder'',
         ''pixelAspectRatio'', ''screenWindowCenter'', ''screenWindowWidth''])"
proof (intro conjI)
  have r: "\<not> (0 :: int) < 0" by simp
  let ?A = complete_scanline_file
  have uf: "user_file ?A = exr_magic @ version_scanline @ eight_required_attributes"
    by (simp add: complete_scanline_file_def alloc_file_data_struct_def)
  have acc: "header_accepted ?A"
    by (rule header_accepted_scanline [OF uf])
  have hs: "user_file (header_start ?A) = eight_required_attributes"
    "192 \<le> malloc_limit (header_start ?A)" "errors (header_start ?A) = []"
    "given_filename (header_start ?A) = []" "storage_mode (header_start ?A) = ACES_STORAGE_SCANLINE"
    unfolding header_start_scanline [OF uf]
    by (simp_all add: complete_scanline_file_def alloc_file_data_struct_def)
  obtain m f4 where loop: "read_attributes (header_start ?A) 0 = Inr (0, m, f4)"
    and ctx: "same_context (header_start ?A) f4"
    and names: "attribute_names (header_start ?A) = [''channels'', ''compression'',
      ''dataWindow'', ''displayWindow'', ''lineOrder'', ''pixelAspectRatio'',
      ''screenWindowCenter'', ''screenWindowWidth'']"
    using eight_required_attributes_read [OF hs(1,2)] by blast
  note v = header_succeeds_only_with_required_attributes [of ?A _ 0 m f4,
      THEN conjunct2, THEN mp, OF conjI [OF acc conjI [OF loop r]],
      unfolded Let_def names missing_of_eight hs(5)]
  have rh: "read_header ?A = Inr (0, f4\<lparr>errors := errors f4\<rparr>)"
    using v by simp
  show "\<exists>f'. read_header ?A = Inr (0, f') \<and> errors f' = []"
    using rh ctx hs by (simp add: same_context_def)
  note w = header_succeeds_only_with_required_attributes
      [of ?A "f4\<lparr>errors := errors f4\<rparr>" 0 m f4, THEN conjunct1, THEN mp, OF rh]
  have "\<exists>rda m g. read_attributes (header_start ?A) 0 = Inr (rda, m, g) \<and>
      m AND required_mask (storage_mode (f4\<lparr>errors := errors f4\<rparr>))
      = required_mask (storage_mode (f4\<lparr>errors := errors f4\<rparr>))"
    by (rule w [THEN conjunct2, THEN conjunct2])
  then show "\<exists>rda m f4. read_attributes (header_start ?A) 0 = Inr (rda, m, f4) \<and> m AND 0xFF = 0xFF"
    using loop ctx hs by (simp add: same_context_def required_mask_def)
next
  have r: "\<not> (0 :: int) < 0" by simp
  let ?B = tiled_without_tiles_file
  have uf: "user_file ?B = exr_magic @ version_tiled @ eight_required_attributes"
    by (simp add: tiled_without_tiles_file_def alloc_file_data_struct_def)
  have acc: "header_accepted ?B"
    by (rule header_accepted_tiled [OF uf])
  have hs: "user_file (header_start ?B) = eight_required_attributes"
    "192 \<le> malloc_limit (header_start ?B)" "errors (header_start ?B) = []"
    "given_filename (header_start ?B) = []" "storage_mode (header_start ?B) = ACES_STORAGE_TILED"
    unfolding header_start_tiled [OF uf]
    by (simp_all add: tiled_without_tiles_file_def alloc_file_data_struct_def)
  obtain m f4 where loop: "read_attributes (header_start ?B) 0 = Inr (0, m, f4)"
    and ctx: "same_context (header_start ?B) f4"
    and names: "attribute_names (header_start ?B) = [''channels'', ''compression'',
      ''dataWindow'', ''displayWindow'', ''lineOrder'', ''pixelAspectRatio'',
      ''screenWindowCenter'', ''screenWindowWidth'']"
    using eight_required_attributes_read [OF hs(1,2)] by blast
  have "read_header ?B
        = Inr (- 1, f4\<lparr>errors := errors f4 @ [MissingRequiredAttribute (given_filename f4) ''tiles'']\<rparr>)"
    using header_succeeds_only_with_required_attributes [of ?B _ 0 m f4,
      THEN conjunct2, THEN mp, OF conjI [OF acc conjI [OF loop r]],
      unfolded Let_def names missing_of_eight hs(5)]
    by simp
  then show "\<exists>f'. read_header ?B = Inr (- 1, f') \<and>
      errors f' = [MissingRequiredAttribute [] ''tiles'']"
    using ctx hs by (simp add: same_context_def)
next
  have r: "\<not> (0 :: int) < 0" by simp
  let ?C = no_attributes_file
  have uf: "user_file ?C = exr_magic @ version_scanline @ [CHR 0x00]"
    by (simp add: no_attributes_file_def alloc_file_data_struct_def)
  have acc: "header_accepted ?C"
    by (rule header_accepted_scanline [OF uf])
  have hs: "user_file (header_start ?C) = [CHR 0x00]" "errors (header_start ?C) = []"
    "given_filename (header_start ?C) = []" "storage_mode (header_start ?C) = ACES_STORAGE_SCANLINE"
    unfolding header_start_scanline [OF uf]
    by (simp_all add: no_attributes_file_def alloc_file_data_struct_def)
  let ?g = "(header_start ?C)\<lparr>user_file := [], cur_file_pos := cur_file_pos (header_start ?C) + 1\<rparr>"
  have ra: "read_attribute (header_start ?C)
            = (0, [], \<lparr>type_name = None, type = ACES_ATTR_UNKNOWN, payload = U_zero\<rparr>, ?g)"
    by (rule read_attribute_sentinel [OF hs(1)])
  have loop: "read_attributes (header_start ?C) 0 = Inr (0, 0, ?g)"
    by (rule read_attributes_stop [OF ra]) simp
  have names: "attribute_names (header_start ?C) = []"
    by (rule attribute_names_stop [OF ra]) simp
  have "read_header ?C
        = Inr (- 1, ?g\<lparr>errors := errors ?g @ map (MissingRequiredAttribute (given_filename ?g))
             [''channels'', ''compression'', ''dataWindow'', ''displayWindow'', ''lineOrder'',
              ''pixelAspectRatio'', ''screenWindowCenter'', ''screenWindowWidth'']\<rparr>)"
    using header_succeeds_only_with_required_attributes [of ?C _ 0 0 ?g,
      THEN conjunct2, THEN mp, OF conjI [OF acc conjI [OF loop r]],
      unfolded Let_def names hs(4), THEN conjunct1]
    by (simp add: required_names_def required_attributes_def)
  then show "\<exists>f'. read_header ?C = Inr (- 1, f') \<and>
      errors f' = map (MissingRequiredAttribute [])
        [''channels'', ''compression'', ''dataWindow'', ''displayWindow'', ''lineOrder'',
         ''pixelAspectRatio'', ''screenWindowCenter'', ''screenWindowWidth'']"
    using hs by simp
qed

section \<open>An empty type name: claim C10\<close>

text \<open>
  Claim C10. An attribute record with a name that is not empty and an empty type name:
  \<open>attr_name_to_type\<close> gives \<open>ACES_ATTR_UNKNOWN\<close> (not \<open>ACES_ATTR_USER\<close>),
  \<open>read_attribute\<close> returns \<open>-1\<close> with the unknown-type message after it has read the
  name, the type name and the size, and the attribute loop and \<open>read_header\<close> return
  \<open>-1\<close>. Only an empty attribute name ends the list.
\<close>

theorem empty_type_name_is_unknown_type:
  assumes rec: "user_file f = attr_record_head nm [] sz4 @ rest"
    and nm: "nm \<noteq> []" "cstring nm" and sz: "length sz4 = 4"
    and after: "f' = f\<lparr>user_file := rest,
                        cur_file_pos := cur_file_pos f + length nm + 6,
                        errors := errors f @ [UnknownAttributeType (given_filename f) nm []]\<rparr>"
  shows "attr_name_to_type [] = ACES_ATTR_UNKNOWN \<and>
         attr_name_to_type [] \<noteq> ACES_ATTR_USER \<and>
         read_attribute f
           = (- 1, nm, \<lparr>type_name = None, type = ACES_ATTR_UNKNOWN, payload = U_zero\<rparr>, f') \<and>
         (\<forall>m. read_attributes f m = Inr (- 1, m, f')) \<and>
         (\<forall>f0 m. header_accepted f0 \<and> loop_reaches (header_start f0) 0 f m
            \<longrightarrow> read_header f0 = Inr (- 1, f'))"
proof -
  have tn: "cstring []" by (simp add: cstring_def)
  have ra: "read_attribute f
            = (- 1, nm, \<lparr>type_name = None, type = ACES_ATTR_UNKNOWN, payload = U_zero\<rparr>, f')"
    unfolding read_attribute_record [OF rec nm tn sz] after
    by (simp add: read_attribute_payload_def attr_name_to_type_empty print_error_def ac_simps)
  have loop: "read_attributes f m = Inr (- 1, m, f')" for m
    using ra by (intro read_attributes_stop) simp_all
  have hdr: "read_header f0 = Inr (- 1, f')"
    if "header_accepted f0" "loop_reaches (header_start f0) 0 f m" for f0 m
    using that ra by (intro read_header_loop_abort [where f = f and m = m]) simp_all
  show ?thesis
    using ra loop hdr by (simp add: attr_name_to_type_empty) blast
qed

text \<open>The theorem of C10 at a header whose first attribute is \<open>foo\<close> with an empty type
  name and a declared size of 4.\<close>

theorem empty_type_name_is_unknown_type_witness:
  "(case read_header empty_type_file of
      Inl e \<Rightarrow> False
    | Inr (rc, f') \<Rightarrow>
        rc = - 1 \<and> user_file f' = ''abcd'' \<and>
        errors f' = [UnknownAttributeType [] ''foo'' []])"
proof -
  let ?f0 = "empty_type_file"
  have uf: "user_file ?f0 = exr_magic @ version_scanline
        @ (attr_record_head ''foo'' [] [CHR 0x04, CHR 0x00, CHR 0x00, CHR 0x00] @ ''abcd'')"
    by (simp add: empty_type_file_def alloc_file_data_struct_def)
  have acc: "header_accepted ?f0"
    by (rule header_accepted_scanline [OF uf])
  have hs: "user_file (header_start ?f0)
            = attr_record_head ''foo'' [] [CHR 0x04, CHR 0x00, CHR 0x00, CHR 0x00] @ ''abcd''"
    "errors (header_start ?f0) = []" "given_filename (header_start ?f0) = []"
    unfolding header_start_scanline [OF uf]
    by (simp_all add: empty_type_file_def alloc_file_data_struct_def)
  have "read_header ?f0
        = Inr (- 1, (header_start ?f0)\<lparr>user_file := ''abcd'',
                 cur_file_pos := cur_file_pos (header_start ?f0) + length ''foo'' + 6,
                 errors := errors (header_start ?f0)
                   @ [UnknownAttributeType (given_filename (header_start ?f0)) ''foo'' []]\<rparr>)"
    using empty_type_name_is_unknown_type [OF hs(1) _ _ _ refl] acc
      loop_reaches.start [of "header_start ?f0" 0]
    by (simp add: cstring_def) blast
  then show ?thesis
    by (simp add: hs)
qed

section \<open>The guard of the preview reader: claim C8\<close>

text \<open>What the guard does reject: declared sizes up to 4, with nothing read.\<close>

lemma attr_read_preview_rejects_up_to_4:
  "sint sz \<le> 4
   \<Longrightarrow> attr_read_preview f sz
       = (- 1, \<lparr>width = 0, height = 0, rgba = None\<rparr>,
          f\<lparr>errors := errors f @ [PreviewTooSmall (given_filename f)]\<rparr>)"
  by (simp add: attr_read_preview_def print_error_def)

text \<open>
  Claim C8 says that a preview attribute whose declared size is at most 8 is rejected
  before the width and height are read. The guard of the code is \<open>size <= 4\<close> (its
  message asks for at least 8 bytes): with a declared size of 6 the reader reads the
  8 bytes of width and height, then the 4 bytes of pixel data, and returns success.
\<close>

theorem preview_size_6_reads_dimensions:
  "attr_read_preview preview_size_6_file 6
   = (1, \<lparr>width = 1, height = 1, rgba = Some ''RGBA''\<rparr>,
      preview_size_6_file\<lparr>user_file := ''next'', cur_file_pos := 12\<rparr>)"
  by (simp add: attr_read_preview_def preview_size_6_file_def alloc_file_data_struct_def
      readfn_def malloc_ok_def le32_def le_nat_def)

section \<open>Closing a handle: claim C9\<close>

lemma release_attribute_memory_frees:
  "(type attr = ACES_ATTR_CHLIST \<and> (\<exists>c. payload attr = U_chlist c \<and> entries c \<noteq> None)
      \<longrightarrow> FreedChlist \<in> set (release_attribute_memory attr)) \<and>
   (type attr = ACES_ATTR_PREVIEW \<and> (\<exists>v. payload attr = U_preview v \<and> rgba v \<noteq> None)
      \<longrightarrow> FreedPreview \<in> set (release_attribute_memory attr)) \<and>
   (type attr = ACES_ATTR_STRING \<and> (\<exists>s. payload attr = U_string s \<and> str s \<noteq> None)
      \<longrightarrow> FreedString \<in> set (release_attribute_memory attr)) \<and>
   (type attr = ACES_ATTR_USER \<and> type_name attr \<noteq> None
      \<longrightarrow> FreedTypeName \<in> set (release_attribute_memory attr)) \<and>
   (type attr = ACES_ATTR_USER \<and> (\<exists>u. payload attr = U_userdata u \<and> data_u u \<noteq> None)
      \<longrightarrow> FreedUserdata \<in> set (release_attribute_memory attr))"
  by (auto simp: release_attribute_memory_def)

lemma user_attribute_released:
  assumes "(nm, attr) \<in> set uas"
  shows "FreedUserAttribute nm
         \<in> set (concat (map (\<lambda>(nm, attr). release_attribute_memory attr @ [FreedUserAttribute nm])
                          uas))"
    and "x \<in> set (release_attribute_memory attr)
         \<Longrightarrow> x \<in> set (concat (map (\<lambda>(nm, attr).
                                      release_attribute_memory attr @ [FreedUserAttribute nm])
                                 uas))"
  using assms by (induction uas) auto

text \<open>
  Claim C9, as the code has it. \<open>aces_close\<close> on a null pointer does nothing. On an
  allocated file structure it succeeds and leaves every other structure as it was. What it
  releases, in this order and nothing else: the channel array if there is one; for each
  user attribute of the list the buffers of the attribute (the channel entries of a
  channel list, the pixels of a preview, the bytes of a string, the type name and the data
  of a user type, each if present) and then the list node; the descriptor if it is not
  negative; and last the structure itself, so the address is no longer allocated. The
  function cannot clear the caller's pointer, and a second \<open>aces_close\<close> on the same
  pointer reads the freed structure.
\<close>

theorem close_null_and_live_handle:
  "aces_close w None = Inr w \<and>
   (\<forall>p pf. objs w p = Some pf \<longrightarrow>
      (\<exists>w'. aces_close w (Some p) = Inr w' \<and> objs w' p = None \<and>
            FreedFileData p \<in> set (released w') \<and>
            aces_close w' (Some p) = Inl (UseAfterFree p) \<and>
            (\<forall>q. q \<noteq> p \<longrightarrow> objs w' q = objs w q) \<and>
            (\<exists>rel. released w' = released w @ rel @ [FreedFileData p] \<and>
               rel = (if entries (channels pf) \<noteq> None then [FreedChannelEntries] else [])
                     @ concat (map (\<lambda>(nm, attr).
                                      release_attribute_memory attr @ [FreedUserAttribute nm])
                                 (user_attributes pf))
                     @ (if 0 \<le> fd pf then [ClosedFd (fd pf)] else []) \<and>
               (entries (channels pf) \<noteq> None \<longrightarrow> FreedChannelEntries \<in> set rel) \<and>
               (0 \<le> fd pf \<longrightarrow> ClosedFd (fd pf) \<in> set rel) \<and>
               (\<forall>(nm, attr) \<in> set (user_attributes pf).
                  FreedUserAttribute nm \<in> set rel \<and>
                  (type attr = ACES_ATTR_CHLIST \<and>
                   (\<exists>c. payload attr = U_chlist c \<and> entries c \<noteq> None)
                     \<longrightarrow> FreedChlist \<in> set rel) \<and>
                  (type attr = ACES_ATTR_PREVIEW \<and>
                   (\<exists>v. payload attr = U_preview v \<and> rgba v \<noteq> None)
                     \<longrightarrow> FreedPreview \<in> set rel) \<and>
                  (type attr = ACES_ATTR_STRING \<and>
                   (\<exists>s. payload attr = U_string s \<and> str s \<noteq> None)
                     \<longrightarrow> FreedString \<in> set rel) \<and>
                  (type attr = ACES_ATTR_USER \<and> type_name attr \<noteq> None
                     \<longrightarrow> FreedTypeName \<in> set rel) \<and>
                  (type attr = ACES_ATTR_USER \<and>
                   (\<exists>u. payload attr = U_userdata u \<and> data_u u \<noteq> None)
                     \<longrightarrow> FreedUserdata \<in> set rel)))))"
proof (intro conjI allI impI)
  show "aces_close w None = Inr w" by (simp add: aces_close_def)
next
  fix p pf
  assume live: "objs w p = Some pf"
  let ?ua = "concat (map (\<lambda>(nm, attr). release_attribute_memory attr @ [FreedUserAttribute nm])
                       (user_attributes pf))"
  let ?rel = "(if entries (channels pf) \<noteq> None then [FreedChannelEntries] else [])
              @ ?ua @ (if 0 \<le> fd pf then [ClosedFd (fd pf)] else [])"
  let ?w' = "w\<lparr>objs := (objs w)(p := None),
               released := released w @ ?rel @ [FreedFileData p]\<rparr>"
  have c: "aces_close w (Some p) = Inr ?w'"
    using live by (simp add: aces_close_def)
  have ua: "FreedUserAttribute nm \<in> set ?ua \<and>
      (x \<in> set (release_attribute_memory attr) \<longrightarrow> x \<in> set ?ua)"
    if "(nm, attr) \<in> set (user_attributes pf)" for nm attr x
    using user_attribute_released [OF that] by blast
  have per: "\<forall>(nm, attr) \<in> set (user_attributes pf).
                  FreedUserAttribute nm \<in> set ?rel \<and>
                  (type attr = ACES_ATTR_CHLIST \<and>
                   (\<exists>c. payload attr = U_chlist c \<and> entries c \<noteq> None)
                     \<longrightarrow> FreedChlist \<in> set ?rel) \<and>
                  (type attr = ACES_ATTR_PREVIEW \<and>
                   (\<exists>v. payload attr = U_preview v \<and> rgba v \<noteq> None)
                     \<longrightarrow> FreedPreview \<in> set ?rel) \<and>
                  (type attr = ACES_ATTR_STRING \<and>
                   (\<exists>s. payload attr = U_string s \<and> str s \<noteq> None)
                     \<longrightarrow> FreedString \<in> set ?rel) \<and>
                  (type attr = ACES_ATTR_USER \<and> type_name attr \<noteq> None
                     \<longrightarrow> FreedTypeName \<in> set ?rel) \<and>
                  (type attr = ACES_ATTR_USER \<and>
                   (\<exists>u. payload attr = U_userdata u \<and> data_u u \<noteq> None)
                     \<longrightarrow> FreedUserdata \<in> set ?rel)"
  proof (intro ballI, clarify)
    fix nm attr
    assume m: "(nm, attr) \<in> set (user_attributes pf)"
    note f = release_attribute_memory_frees [of attr]
    have s: "x \<in> set (release_attribute_memory attr) \<Longrightarrow> x \<in> set ?rel" for x
      using ua [OF m, of x] by simp
    have n: "FreedUserAttribute nm \<in> set ?rel"
      using ua [OF m] by simp
    show "FreedUserAttribute nm \<in> set ?rel \<and>
                  (type attr = ACES_ATTR_CHLIST \<and>
                   (\<exists>c. payload attr = U_chlist c \<and> entries c \<noteq> None)
                     \<longrightarrow> FreedChlist \<in> set ?rel) \<and>
                  (type attr = ACES_ATTR_PREVIEW \<and>
                   (\<exists>v. payload attr = U_preview v \<and> rgba v \<noteq> None)
                     \<longrightarrow> FreedPreview \<in> set ?rel) \<and>
                  (type attr = ACES_ATTR_STRING \<and>
                   (\<exists>s. payload attr = U_string s \<and> str s \<noteq> None)
                     \<longrightarrow> FreedString \<in> set ?rel) \<and>
                  (type attr = ACES_ATTR_USER \<and> type_name attr \<noteq> None
                     \<longrightarrow> FreedTypeName \<in> set ?rel) \<and>
                  (type attr = ACES_ATTR_USER \<and>
                   (\<exists>u. payload attr = U_userdata u \<and> data_u u \<noteq> None)
                     \<longrightarrow> FreedUserdata \<in> set ?rel)"
      using n f s by blast
  qed
  have r: "released ?w' = released w @ ?rel @ [FreedFileData p] \<and>
           ?rel = ?rel \<and>
           (entries (channels pf) \<noteq> None \<longrightarrow> FreedChannelEntries \<in> set ?rel) \<and>
           (0 \<le> fd pf \<longrightarrow> ClosedFd (fd pf) \<in> set ?rel)"
    by simp
  have o: "objs ?w' p = None" "FreedFileData p \<in> set (released ?w')"
    "aces_close ?w' (Some p) = Inl (UseAfterFree p)" "\<forall>q. q \<noteq> p \<longrightarrow> objs ?w' q = objs w q"
    by (simp_all add: aces_close_def)
  show "\<exists>w'. aces_close w (Some p) = Inr w' \<and> objs w' p = None \<and>
            FreedFileData p \<in> set (released w') \<and>
            aces_close w' (Some p) = Inl (UseAfterFree p) \<and>
            (\<forall>q. q \<noteq> p \<longrightarrow> objs w' q = objs w q) \<and>
            (\<exists>rel. released w' = released w @ rel @ [FreedFileData p] \<and>
               rel = (if entries (channels pf) \<noteq> None then [FreedChannelEntries] else [])
                     @ concat (map (\<lambda>(nm, attr).
                                      release_attribute_memory attr @ [FreedUserAttribute nm])
                                 (user_attributes pf))
                     @ (if 0 \<le> fd pf then [ClosedFd (fd pf)] else []) \<and>
               (entries (channels pf) \<noteq> None \<longrightarrow> FreedChannelEntries \<in> set rel) \<and>
               (0 \<le> fd pf \<longrightarrow> ClosedFd (fd pf) \<in> set rel) \<and>
               (\<forall>(nm, attr) \<in> set (user_attributes pf).
                  FreedUserAttribute nm \<in> set rel \<and>
                  (type attr = ACES_ATTR_CHLIST \<and>
                   (\<exists>c. payload attr = U_chlist c \<and> entries c \<noteq> None)
                     \<longrightarrow> FreedChlist \<in> set rel) \<and>
                  (type attr = ACES_ATTR_PREVIEW \<and>
                   (\<exists>v. payload attr = U_preview v \<and> rgba v \<noteq> None)
                     \<longrightarrow> FreedPreview \<in> set rel) \<and>
                  (type attr = ACES_ATTR_STRING \<and>
                   (\<exists>s. payload attr = U_string s \<and> str s \<noteq> None)
                     \<longrightarrow> FreedString \<in> set rel) \<and>
                  (type attr = ACES_ATTR_USER \<and> type_name attr \<noteq> None
                     \<longrightarrow> FreedTypeName \<in> set rel) \<and>
                  (type attr = ACES_ATTR_USER \<and>
                   (\<exists>u. payload attr = U_userdata u \<and> data_u u \<noteq> None)
                     \<longrightarrow> FreedUserdata \<in> set rel)))"
    apply (rule exI [of _ ?w'])
    apply (intro conjI c o)
    apply (rule exI [of _ ?rel])
    using r per apply blast
    done
qed

text \<open>The theorem of C9 in the world with two open handles: closing the handle at address 7
  frees its channel array, the string and its node, the type name, the data and their
  node, closes descriptor 3 and frees the structure; the handle at address 8 stays.\<close>

theorem close_null_and_live_handle_witness:
  "aces_close loaded_handle_world None = Inr loaded_handle_world \<and>
   (\<exists>pf. objs loaded_handle_world 7 = Some pf \<and> entries (channels pf) \<noteq> None \<and>
      user_attributes pf = [(''owner'', owner_attribute), (''custom'', custom_attribute)] \<and>
      fd pf = 3) \<and>
   (\<exists>w'. aces_close loaded_handle_world (Some 7) = Inr w' \<and> objs w' 7 = None \<and>
         objs w' 8 = objs loaded_handle_world 8 \<and>
         released w' = [FreedChannelEntries, FreedString, FreedUserAttribute ''owner'',
                        FreedTypeName, FreedUserdata, FreedUserAttribute ''custom'',
                        ClosedFd 3, FreedFileData 7] \<and>
         aces_close w' (Some 7) = Inl (UseAfterFree 7))"
proof -
  let ?pf = "(alloc_file_data_struct [] 4096)
                     \<lparr>channels := \<lparr>num_channels = 1,
                                   entries = Some [channel_decoded (''R'', half_1x1)]\<rparr>,
                      user_attributes := [(''owner'', owner_attribute),
                                          (''custom'', custom_attribute)],
                      fd := 3\<rparr>"
  have live: "objs loaded_handle_world 7 = Some ?pf"
    by (simp add: loaded_handle_world_def)
  have pf: "entries (channels ?pf) \<noteq> None"
    "user_attributes ?pf = [(''owner'', owner_attribute), (''custom'', custom_attribute)]"
    "fd ?pf = 3"
    by simp_all
  have rel0: "released loaded_handle_world = []"
    by (simp add: loaded_handle_world_def)
  note t = close_null_and_live_handle [of loaded_handle_world]
  have n: "aces_close loaded_handle_world None = Inr loaded_handle_world"
    by (rule t [THEN conjunct1])
  note t2 = t [THEN conjunct2, rule_format, OF live]
  from t2 obtain w' rel where c: "aces_close loaded_handle_world (Some 7) = Inr w'"
    and o: "objs w' 7 = None" "aces_close w' (Some 7) = Inl (UseAfterFree 7)"
    and q: "\<forall>q. q \<noteq> 7 \<longrightarrow> objs w' q = objs loaded_handle_world q"
    and r: "released w' = released loaded_handle_world @ rel @ [FreedFileData 7]"
    and e: "rel = (if entries (channels ?pf) \<noteq> None then [FreedChannelEntries] else [])
                  @ concat (map (\<lambda>(nm, attr).
                                   release_attribute_memory attr @ [FreedUserAttribute nm])
                              (user_attributes ?pf))
                  @ (if 0 \<le> fd ?pf then [ClosedFd (fd ?pf)] else [])"
    by (elim exE conjE) blast
  have "rel = [FreedChannelEntries, FreedString, FreedUserAttribute ''owner'',
               FreedTypeName, FreedUserdata, FreedUserAttribute ''custom'', ClosedFd 3]"
    unfolding e
    by (simp add: release_attribute_memory_def owner_attribute_def custom_attribute_def)
  then have r8: "released w' = [FreedChannelEntries, FreedString, FreedUserAttribute ''owner'',
                        FreedTypeName, FreedUserdata, FreedUserAttribute ''custom'',
                        ClosedFd 3, FreedFileData 7]"
    using r rel0 by simp
  have o8: "objs w' 8 = objs loaded_handle_world 8"
    using q by simp
  show ?thesis
  proof (intro conjI)
    show "aces_close loaded_handle_world None = Inr loaded_handle_world"
      by (rule n)
    show "\<exists>pf. objs loaded_handle_world 7 = Some pf \<and> entries (channels pf) \<noteq> None \<and>
      user_attributes pf = [(''owner'', owner_attribute), (''custom'', custom_attribute)] \<and>
      fd pf = 3"
      by (intro exI [of _ ?pf] conjI live pf)
    show "\<exists>w'. aces_close loaded_handle_world (Some 7) = Inr w' \<and> objs w' 7 = None \<and>
         objs w' 8 = objs loaded_handle_world 8 \<and>
         released w' = [FreedChannelEntries, FreedString, FreedUserAttribute ''owner'',
                        FreedTypeName, FreedUserdata, FreedUserAttribute ''custom'',
                        ClosedFd 3, FreedFileData 7] \<and>
         aces_close w' (Some 7) = Inl (UseAfterFree 7)"
      by (intro exI [of _ w'] conjI c o o8 r8)
  qed
qed

text \<open>
  Claim C9 as stated says that a second close of the same handle is a safe no-op. In the
  world with one open handle the first close frees the structure at address 7, and the
  second call does not return the world unchanged: it uses the freed structure.
\<close>

theorem second_close_is_not_a_no_op_counterexample:
  "(case aces_close one_handle_world (Some 7) of
      Inl e \<Rightarrow> False
    | Inr w1 \<Rightarrow>
        released w1 = [ClosedFd 3, FreedFileData 7] \<and>
        aces_close w1 (Some 7) = Inl (UseAfterFree 7) \<and>
        aces_close w1 (Some 7) \<noteq> Inr w1)"
  by (simp add: aces_close_def one_handle_world_def alloc_file_data_struct_def)

end
